theory Spec2Isabelle
  imports Complex_Main "HOL-Library.Sublist"
begin

section \<open>Passage model of twinejs (src/data/models/passage.js)\<close>

subsection \<open>JavaScript numbers\<close>

text \<open>
  The coordinates of a passage are JavaScript numbers: IEEE 754 doubles. A number is
  \<open>Num x\<close> for a finite double of value \<open>x\<close>, an infinity or \<open>NaN\<close>; the sign of zero
  is left out. The result of an operation on finite numbers is the exact result rounded
  to the nearest double, to the even one of two nearest (\<open>round_double\<close>).
\<close>

datatype jsnum = Num real | PosInf | NegInf | NaN

text \<open>Rounding to the nearest integer, a tie to the even one.\<close>

definition rne :: "real \<Rightarrow> int" where
  "rne y =
     (let f = \<lfloor>y\<rfloor> in
      if y - of_int f < 1 / 2 then f
      else if 1 / 2 < y - of_int f then f + 1
      else if even f then f else f + 1)"

text \<open>
  The doubles are the multiples \<open>n * 2 powi e\<close> with \<open>\<bar>n\<bar> < 2 ^ 53\<close> and
  \<open>- 1074 \<le> e\<close> below \<open>2 powi 1024\<close>. \<open>binade x\<close> is the exponent \<open>e\<close> with
  \<open>2 powi e \<le> \<bar>x\<bar> < 2 powi (e + 1)\<close>, found among the exponents of the format;
  \<open>quantum x\<close> is the distance of the doubles around \<open>x\<close> (the one of the subnormal
  numbers below \<open>2 powi (- 1022)\<close>). A rounded value of \<open>2 powi 1024\<close> or more is an
  infinity.
\<close>

definition min_exponent :: int where
  "min_exponent = - 1074"

definition max_exponent :: int where
  "max_exponent = 1024"

definition binade :: "real \<Rightarrow> int" where
  "binade x =
     (let es = filter (\<lambda>e. 2 powi e \<le> \<bar>x\<bar>) [min_exponent..max_exponent] in
      if es = [] then min_exponent - 1 else last es)"

definition quantum :: "real \<Rightarrow> real" where
  "quantum x = 2 powi (max (binade x) (min_exponent + 52) - 52)"

definition round_double :: "real \<Rightarrow> jsnum" where
  "round_double x =
     (let y = of_int (rne (x / quantum x)) * quantum x in
      if 2 powi max_exponent \<le> y then PosInf
      else if y \<le> - (2 powi max_exponent) then NegInf
      else Num y)"

text \<open>The operators \<open>+\<close>, \<open>-\<close> (unary and binary) and \<open>*\<close>.\<close>

fun js_neg :: "jsnum \<Rightarrow> jsnum" where
  "js_neg (Num a) = Num (- a)"
| "js_neg PosInf = NegInf"
| "js_neg NegInf = PosInf"
| "js_neg NaN = NaN"

fun js_add :: "jsnum \<Rightarrow> jsnum \<Rightarrow> jsnum" where
  "js_add (Num a) (Num b) = round_double (a + b)"
| "js_add NaN _ = NaN"
| "js_add _ NaN = NaN"
| "js_add PosInf NegInf = NaN"
| "js_add NegInf PosInf = NaN"
| "js_add PosInf _ = PosInf"
| "js_add _ PosInf = PosInf"
| "js_add NegInf _ = NegInf"
| "js_add _ NegInf = NegInf"

definition js_sub :: "jsnum \<Rightarrow> jsnum \<Rightarrow> jsnum" where
  "js_sub a b = js_add a (js_neg b)"

fun js_mul :: "jsnum \<Rightarrow> jsnum \<Rightarrow> jsnum" where
  "js_mul (Num a) (Num b) = round_double (a * b)"
| "js_mul NaN _ = NaN"
| "js_mul _ NaN = NaN"
| "js_mul (Num a) b = (if a = 0 then NaN else if (0 < a) = (b = PosInf) then PosInf else NegInf)"
| "js_mul a (Num b) = (if b = 0 then NaN else if (0 < b) = (a = PosInf) then PosInf else NegInf)"
| "js_mul a b = (if a = b then PosInf else NegInf)"

text \<open>The relational operators \<open><\<close>, \<open>>\<close> and \<open>>=\<close>: false when an operand is \<open>NaN\<close>.\<close>

fun js_lt :: "jsnum \<Rightarrow> jsnum \<Rightarrow> bool" where
  "js_lt (Num a) (Num b) = (a < b)"
| "js_lt NegInf (Num b) = True"
| "js_lt NegInf PosInf = True"
| "js_lt (Num a) PosInf = True"
| "js_lt _ _ = False"

definition js_gt :: "jsnum \<Rightarrow> jsnum \<Rightarrow> bool" where
  "js_gt a b = js_lt b a"

definition js_ge :: "jsnum \<Rightarrow> jsnum \<Rightarrow> bool" where
  "js_ge a b = (a \<noteq> NaN \<and> b \<noteq> NaN \<and> \<not> js_lt a b)"

text \<open>\<open>Math.abs\<close>, \<open>Math.min\<close> and \<open>Math.max\<close>.\<close>

fun js_abs :: "jsnum \<Rightarrow> jsnum" where
  "js_abs (Num a) = Num \<bar>a\<bar>"
| "js_abs PosInf = PosInf"
| "js_abs NegInf = PosInf"
| "js_abs NaN = NaN"

definition js_min :: "jsnum \<Rightarrow> jsnum \<Rightarrow> jsnum" where
  "js_min a b = (if a = NaN \<or> b = NaN then NaN else if js_lt b a then b else a)"

definition js_max :: "jsnum \<Rightarrow> jsnum \<Rightarrow> jsnum" where
  "js_max a b = (if a = NaN \<or> b = NaN then NaN else if js_lt a b then b else a)"

text \<open>
  A variable declared by \<open>let\<close> and never assigned holds \<open>undefined\<close>, here
  \<open>None\<close>; used as a number (\<open>Math.abs(xChange)\<close>, \<open>oLeft + xChange\<close>) it is
  \<open>NaN\<close>.
\<close>

fun to_number :: "jsnum option \<Rightarrow> jsnum" where
  "to_number (Some n) = n"
| "to_number None = NaN"

subsection \<open>The passage and its class constants\<close>

text \<open>
  The values of the attributes \<open>id\<close> and \<open>story\<close>: \<open>undefined\<close> (the id of a
  passage that was never saved), \<open>null\<close>, a number (the default \<open>story: -1\<close>) or a
  string (a persisted id, or a client id such as \<open>c12\<close>).
\<close>

datatype jsval = Undefined | Null | JNum jsnum | JStr string

record passage =
  attr_id :: jsval
  attr_story :: jsval
  attr_top :: jsnum
  attr_left :: jsnum
  attr_tags :: "string list"
  attr_name :: string
  attr_text :: string

text \<open>The \<open>defaults\<close> of a new passage (the text is the one of a desktop browser).\<close>

definition defaults :: passage where
  "defaults = \<lparr>attr_id = Undefined, attr_story = JNum (Num (- 1)), attr_top = Num 0,
     attr_left = Num 0, attr_tags = [], attr_name = ''Untitled Passage'',
     attr_text = ''Double-click this passage to edit it.''\<rparr>"

definition Passage_width :: real where
  "Passage_width = 100"

definition Passage_height :: real where
  "Passage_height = 100"

definition Passage_padding :: real where
  "Passage_padding = 12.5"

subsection \<open>Writing a coordinate: the change handler of initialize\<close>

text \<open>
  \<open>set('top', v)\<close> stores the value and, when the stored value changed, fires the
  change event; the handler registered by \<open>initialize\<close> then reads the changed
  attributes and stores 0 over a changed \<open>top\<close> (or \<open>left\<close>) that is below 0:
  \<^verbatim>\<open>if (attrs.top !== null && attrs.top < 0) { this.set('top', 0); }\<close>
  An attribute that did not change is \<open>undefined\<close> in \<open>attrs\<close>, and
  \<open>undefined < 0\<close> is false. The handler's other effect, touching the owning story's
  \<open>lastUpdate\<close>, writes nothing on the passage.
\<close>

definition set_top :: "passage \<Rightarrow> jsnum \<Rightarrow> passage" where
  "set_top p v =
     (if attr_top p = v then p
      else if js_lt v (Num 0) then p\<lparr>attr_top := Num 0\<rparr>
      else p\<lparr>attr_top := v\<rparr>)"

definition set_left :: "passage \<Rightarrow> jsnum \<Rightarrow> passage" where
  "set_left p v =
     (if attr_left p = v then p
      else if js_lt v (Num 0) then p\<lparr>attr_left := Num 0\<rparr>
      else p\<lparr>attr_left := v\<rparr>)"

subsection \<open>intersects\<close>

definition intersects :: "passage \<Rightarrow> passage \<Rightarrow> bool" where
  "intersects this other =
     (let pP = Num Passage_padding; pW = Num Passage_width; pH = Num Passage_height in
      js_lt (js_sub (attr_left this) pP) (js_add (js_add (attr_left other) pW) pP) \<and>
      js_gt (js_add (js_add (attr_left this) pW) pP) (js_sub (attr_left other) pP) \<and>
      js_lt (js_sub (attr_top this) pP) (js_add (js_add (attr_top other) pH) pP) \<and>
      js_gt (js_add (js_add (attr_top this) pH) pP) (js_sub (attr_top other) pP))"

subsection \<open>displace\<close>

text \<open>The padded bounds \<open>tLeft\<close>, \<open>tRight\<close>, \<open>tTop\<close>, \<open>tBottom\<close> of a passage
  (\<open>oLeft\<close>, ... for the other one are the same expressions).\<close>

definition padded_left :: "passage \<Rightarrow> jsnum" where
  "padded_left q = js_sub (attr_left q) (Num Passage_padding)"

definition padded_right :: "passage \<Rightarrow> jsnum" where
  "padded_right q =
     js_add (js_add (padded_left q) (Num Passage_width)) (js_mul (Num Passage_padding) (Num 2))"

definition padded_top :: "passage \<Rightarrow> jsnum" where
  "padded_top q = js_sub (attr_top q) (Num Passage_padding)"

definition padded_bottom :: "passage \<Rightarrow> jsnum" where
  "padded_bottom q =
     js_add (js_add (padded_top q) (Num Passage_height)) (js_mul (Num Passage_padding) (Num 2))"

definition xOverlap :: "passage \<Rightarrow> passage \<Rightarrow> jsnum" where
  "xOverlap this other =
     js_sub (js_min (padded_right this) (padded_right other))
            (js_max (padded_left this) (padded_left other))"

definition yOverlap :: "passage \<Rightarrow> passage \<Rightarrow> jsnum" where
  "yOverlap this other =
     js_sub (js_min (padded_bottom this) (padded_bottom other))
            (js_max (padded_top this) (padded_top other))"

definition leftMove :: "passage \<Rightarrow> passage \<Rightarrow> jsnum" where
  "leftMove this other =
     js_add (js_add (js_sub (padded_left other) (padded_left this)) (Num Passage_width))
            (Num Passage_padding)"

definition rightMove :: "passage \<Rightarrow> passage \<Rightarrow> jsnum" where
  "rightMove this other =
     js_add (js_sub (padded_right this) (padded_left other)) (Num Passage_padding)"

definition upMove :: "passage \<Rightarrow> passage \<Rightarrow> jsnum" where
  "upMove this other =
     js_add (js_add (js_sub (padded_top other) (padded_top this)) (Num Passage_height))
            (Num Passage_padding)"

definition downMove :: "passage \<Rightarrow> passage \<Rightarrow> jsnum" where
  "downMove this other =
     js_add (js_sub (padded_bottom this) (padded_top other)) (Num Passage_padding)"

text \<open>\<open>xChange\<close> and \<open>yChange\<close> stay \<open>undefined\<close> when the overlap is exactly 0
  (\<open>NaN !== 0\<close> is true).\<close>

definition xChange :: "passage \<Rightarrow> passage \<Rightarrow> jsnum option" where
  "xChange this other =
     (if xOverlap this other \<noteq> Num 0
      then (if js_lt (leftMove this other) (rightMove this other)
            then Some (js_neg (leftMove this other))
            else Some (rightMove this other))
      else None)"

definition yChange :: "passage \<Rightarrow> passage \<Rightarrow> jsnum option" where
  "yChange this other =
     (if yOverlap this other \<noteq> Num 0
      then (if js_lt (upMove this other) (downMove this other)
            then Some (js_neg (upMove this other))
            else Some (downMove this other))
      else None)"

text \<open>The result is the other passage after the call; the anchor is not written.\<close>

definition displace :: "passage \<Rightarrow> passage \<Rightarrow> passage" where
  "displace this other =
     (if js_gt (js_abs (to_number (xChange this other))) (js_abs (to_number (yChange this other)))
      then set_top other (js_add (padded_top other) (to_number (yChange this other)))
      else set_left other (js_add (padded_left other) (to_number (xChange this other))))"

subsection \<open>The invariant of the stored position, and the coordinates of a pixel grid\<close>

text \<open>\<open>left >= 0\<close> and \<open>top >= 0\<close>, as comparisons of the language (false on \<open>NaN\<close>).\<close>

definition position_invariant :: "passage \<Rightarrow> bool" where
  "position_invariant p = (js_ge (attr_left p) (Num 0) \<and> js_ge (attr_top p) (Num 0))"

text \<open>
  The multiples of 0.5 up to \<open>2 ^ 50\<close> in magnitude: on them every sum and difference
  that intersects and displace compute is a double, so nothing is rounded.
\<close>

definition half_int :: "real \<Rightarrow> bool" where
  "half_int x = (of_int \<lfloor>2 * x\<rfloor> = 2 * x)"

definition grid_coordinate :: "jsnum \<Rightarrow> bool" where
  "grid_coordinate v = (case v of Num x \<Rightarrow> half_int x \<and> \<bar>x\<bar> \<le> 2 ^ 50 | _ \<Rightarrow> False)"

definition on_grid :: "passage \<Rightarrow> bool" where
  "on_grid p = (grid_coordinate (attr_left p) \<and> grid_coordinate (attr_top p))"


subsection \<open>excerpt\<close>

text \<open>
  \<open>_.escape\<close> of the underscore library replaces each of the characters
  \<open>&\<close>, \<open><\<close>, \<open>>\<close>, the double quote (0x22), the single quote (0x27) and the
  backtick (0x60) by its HTML entity and keeps every other character.
\<close>

definition escape_char :: "char \<Rightarrow> string" where
  "escape_char c =
     (if c = CHR ''&'' then ''&amp;''
      else if c = CHR ''<'' then ''&lt;''
      else if c = CHR ''>'' then ''&gt;''
      else if c = CHR 0x22 then ''&quot;''
      else if c = CHR 0x27 then ''&#x27;''
      else if c = CHR 0x60 then ''&#x60;''
      else [c])"

definition escape :: "string \<Rightarrow> string" where
  "escape s = concat (map escape_char s)"

definition excerpt :: "passage \<Rightarrow> string" where
  "excerpt this =
     (let text = escape (attr_text this) in
      if length text > 100 then take 99 text @ ''&hellip;'' else text)"

text \<open>The characters that \<open>_.escape\<close> replaces.\<close>

definition html_special :: "char \<Rightarrow> bool" where
  "html_special c = (c \<in> set [CHR ''&'', CHR ''<'', CHR ''>'', CHR 0x22, CHR 0x27, CHR 0x60])"

subsection \<open>validate\<close>

text \<open>
  The operator \<open>==\<close> on the values of an id: \<open>undefined\<close> and \<open>null\<close> equal each
  other and nothing else; two numbers are equal when they are the same number, \<open>NaN\<close>
  equalling nothing; two strings when they are the same string; a number and a string when
  the number equals the string converted to a number. That conversion (\<open>ToNumber\<close>, with
  an implementation-defined rounding of long literals) is the parameter \<open>tn\<close>.
\<close>

definition num_eq :: "jsnum \<Rightarrow> jsnum \<Rightarrow> bool" where
  "num_eq a b = (a \<noteq> NaN \<and> a = b)"

fun loose_eq :: "(string \<Rightarrow> jsnum) \<Rightarrow> jsval \<Rightarrow> jsval \<Rightarrow> bool" where
  "loose_eq tn Undefined Undefined = True"
| "loose_eq tn Undefined Null = True"
| "loose_eq tn Null Undefined = True"
| "loose_eq tn Null Null = True"
| "loose_eq tn (JNum a) (JNum b) = num_eq a b"
| "loose_eq tn (JStr s) (JStr t) = (s = t)"
| "loose_eq tn (JNum a) (JStr t) = num_eq a (tn t)"
| "loose_eq tn (JStr s) (JNum b) = num_eq (tn s) b"
| "loose_eq tn _ _ = False"

text \<open>
  The stories of \<open>StoryCollection.all()\<close> are a parameter. A story has an id once it is
  persisted (\<open>undefined\<close> before), a client id (a string such as \<open>c3\<close>), and the
  passages that its \<open>fetchPassages()\<close> returns.
\<close>

record story =
  story_id :: jsval
  story_cid :: string
  story_passages :: "passage list"

text \<open>\<open>fetchStory\<close>: the first story whose id or client id \<open>==\<close> the passage's
  \<open>story\<close> attribute, \<open>undefined\<close> (here \<open>None\<close>) when there is none.\<close>

definition fetchStory :: "(string \<Rightarrow> jsnum) \<Rightarrow> story list \<Rightarrow> passage \<Rightarrow> story option" where
  "fetchStory tn stories this =
     find (\<lambda>s. loose_eq tn (story_id s) (attr_story this) \<or>
               loose_eq tn (JStr (story_cid s)) (attr_story this)) stories"

text \<open>Modelled from the spec: \<open>fetchPassages\<close> of the story model, which is not among
  the source files: the query for all passages that the story owns.\<close>

definition fetchPassages :: "story \<Rightarrow> passage list" where
  "fetchPassages s = story_passages s"

text \<open>
  \<open>toLowerCase\<close> on the code units up to 0xFF: the capital letters A to Z and those of
  Latin-1 (0xC0 to 0xDE without the multiplication sign 0xD7) are mapped to the letter 32
  code units above; every other code unit is kept.
\<close>

definition capital :: "char \<Rightarrow> bool" where
  "capital c =
     (let n = of_char c :: nat in
      (65 \<le> n \<and> n \<le> 90) \<or> (192 \<le> n \<and> n \<le> 222 \<and> n \<noteq> 215))"

definition lower_char :: "char \<Rightarrow> char" where
  "lower_char c = (if capital c then char_of (of_char c + 32 :: nat) else c)"

definition toLowerCase :: "string \<Rightarrow> string" where
  "toLowerCase s = map lower_char s"

text \<open>The attributes and options that validate reads. A missing name is \<open>None\<close>; the
  two options are read for their truth value.\<close>

record attrs =
  attrs_id :: jsval
  attrs_name :: "string option"

record options =
  noValidation :: bool
  noDupeValidation :: bool

text \<open>The two messages of \<open>locale.say\<close>, the second with the name it is given.\<close>

datatype message = Name_required | Name_taken string

text \<open>Calling a method on \<open>undefined\<close> throws a TypeError.\<close>

datatype js_error = TypeError

definition isDupe :: "(string \<Rightarrow> jsnum) \<Rightarrow> jsval \<Rightarrow> string \<Rightarrow> passage \<Rightarrow> bool" where
  "isDupe tn aid aname passage =
     (\<not> loose_eq tn aid (attr_id passage) \<and>
      toLowerCase aname = toLowerCase (attr_name passage))"

text \<open>The result is \<open>Inl\<close> for a throw, \<open>Inr None\<close> for a return without a value and
  \<open>Inr (Some m)\<close> for a returned message.\<close>

definition validate ::
  "(string \<Rightarrow> jsnum) \<Rightarrow> story list \<Rightarrow> passage \<Rightarrow> attrs \<Rightarrow> options \<Rightarrow>
     js_error + message option" where
  "validate tn stories this attrs opts =
     (if noValidation opts then Inr None
      else case attrs_name attrs of
        None \<Rightarrow> Inr (Some Name_required)
      | Some name \<Rightarrow>
          if name = [] then Inr (Some Name_required)
          else if noDupeValidation opts then Inr None
          else case fetchStory tn stories this of
            None \<Rightarrow> Inl TypeError
          | Some s \<Rightarrow>
              (case find (isDupe tn (attrs_id attrs) name) (fetchPassages s) of
                 Some d \<Rightarrow> Inr (Some (Name_taken name))
               | None \<Rightarrow> Inr None))"

subsection \<open>The validation failures, in the words of the specification\<close>

text \<open>The name is empty or missing.\<close>

definition name_missing :: "attrs \<Rightarrow> bool" where
  "name_missing attrs = (attrs_name attrs = None \<or> attrs_name attrs = Some [])"

text \<open>
  Two ids name the same thing: both are absent (\<open>undefined\<close> or \<open>null\<close>), or both are
  the same string, or, one of them at least being a number, both read as the same number.
\<close>

definition absent :: "jsval \<Rightarrow> bool" where
  "absent v = (v = Undefined \<or> v = Null)"

fun read_number :: "(string \<Rightarrow> jsnum) \<Rightarrow> jsval \<Rightarrow> jsnum option" where
  "read_number tn (JNum a) = Some a"
| "read_number tn (JStr s) = Some (tn s)"
| "read_number tn _ = None"

fun both_strings :: "jsval \<Rightarrow> jsval \<Rightarrow> bool" where
  "both_strings (JStr s) (JStr t) = True"
| "both_strings _ _ = False"

definition same_id :: "(string \<Rightarrow> jsnum) \<Rightarrow> jsval \<Rightarrow> jsval \<Rightarrow> bool" where
  "same_id tn x y =
     (if absent x \<or> absent y then absent x \<and> absent y
      else if both_strings x y then x = y
      else read_number tn x = read_number tn y \<and> read_number tn x \<noteq> Some NaN)"

text \<open>
  Two names are the same up to case: they have the same length and, position by position,
  the same character or the two forms of one letter. The small letters are a to z (0x61 to
  0x7A) and those of Latin-1 (0xE0 to 0xFE without the division sign 0xF7); the capital
  form of a small letter is 32 code units below it.
\<close>

definition small_letter :: "char \<Rightarrow> bool" where
  "small_letter c =
     (let k = of_char c :: nat in
      (97 \<le> k \<and> k \<le> 122) \<or> (224 \<le> k \<and> k \<le> 254 \<and> k \<noteq> 247))"

definition capital_of :: "char \<Rightarrow> char \<Rightarrow> bool" where
  "capital_of C c = (small_letter c \<and> (of_char C :: nat) + 32 = of_char c)"

definition same_letter :: "char \<Rightarrow> char \<Rightarrow> bool" where
  "same_letter c d = (c = d \<or> capital_of c d \<or> capital_of d c)"

definition same_name :: "string \<Rightarrow> string \<Rightarrow> bool" where
  "same_name a b = list_all2 same_letter a b"

text \<open>
  The story of a passage is the first story of the collection whose id or client id is the
  \<open>story\<close> attribute of the passage. The name of \<open>attrs\<close> is duplicated when a passage
  of that story, another one by its id, has the same name up to case.
\<close>

definition is_story_of :: "(string \<Rightarrow> jsnum) \<Rightarrow> passage \<Rightarrow> story \<Rightarrow> bool" where
  "is_story_of tn this s =
     (same_id tn (attr_story this) (story_id s) \<or> same_id tn (attr_story this) (JStr (story_cid s)))"

definition has_story :: "(string \<Rightarrow> jsnum) \<Rightarrow> story list \<Rightarrow> passage \<Rightarrow> bool" where
  "has_story tn stories this = list_ex (is_story_of tn this) stories"

definition name_duplicated ::
  "(string \<Rightarrow> jsnum) \<Rightarrow> story list \<Rightarrow> passage \<Rightarrow> attrs \<Rightarrow> bool" where
  "name_duplicated tn stories this attrs =
     (case attrs_name attrs of
        None \<Rightarrow> False
      | Some name \<Rightarrow>
          (case filter (is_story_of tn this) stories of
             [] \<Rightarrow> False
           | s # _ \<Rightarrow>
               list_ex (\<lambda>q. \<not> same_id tn (attr_id q) (attrs_id attrs) \<and>
                            same_name (attr_name q) name) (story_passages s)))"


subsection \<open>Regular expressions of the language\<close>

text \<open>
  The regular expressions of the source are written as terms of \<open>re\<close> and run by a
  backtracking matcher. A text is a list of characters, one for each code unit; the code
  units above 0xFF are left out. Character classes: \<open>.\<close> (any character but the line
  terminators, here line feed and carriage return), a negated class \<open>[^...]\<close> and
  \<open>\w\<close>.
\<close>

datatype cls = Dot | NotOf string | Word

fun cls_ok :: "cls \<Rightarrow> char \<Rightarrow> bool" where
  "cls_ok Dot c = (c \<noteq> CHR 0x0A \<and> c \<noteq> CHR 0x0D)"
| "cls_ok (NotOf cs) c = (c \<notin> set cs)"
| "cls_ok Word c =
     (c \<in> set ''abcdefghijklmnopqrstuvwxyzABCDEFGHIJKLMNOPQRSTUVWXYZ0123456789_'')"

datatype re =
    Lit string
  | One cls
  | Star cls
  | StarLazy cls
  | Plus cls
  | Opt re
  | Grp nat re
  | Seq re re
  | Alt re re

text \<open>
  The inputs that remain after \<open>c*\<close> and \<open>c*?\<close>, in the order in which the matcher
  tries them: the greedy star gives up characters one by one, the lazy star takes them
  one by one.
\<close>

fun star_greedy :: "(char \<Rightarrow> bool) \<Rightarrow> string \<Rightarrow> string list" where
  "star_greedy P [] = [[]]"
| "star_greedy P (c # cs) = (if P c then star_greedy P cs @ [c # cs] else [c # cs])"

fun star_lazy :: "(char \<Rightarrow> bool) \<Rightarrow> string \<Rightarrow> string list" where
  "star_lazy P [] = [[]]"
| "star_lazy P (c # cs) = (c # cs) # (if P c then star_lazy P cs else [])"

text \<open>
  A matcher state is the input that remains and the captures so far. \<open>run r st\<close> lists
  the states after every way to match \<open>r\<close> at the start of the input, in the order of
  the backtracking search; the match of the language is the first one. An iteration of
  \<open>?\<close> that consumes nothing is rejected, as the language does.
\<close>

type_synonym captures = "nat \<Rightarrow> string option"
type_synonym mstate = "string \<times> captures"

fun run :: "re \<Rightarrow> mstate \<Rightarrow> mstate list" where
  "run (Lit w) (s, g) = (if take (length w) s = w then [(drop (length w) s, g)] else [])"
| "run (One c) (s, g) =
     (case s of [] \<Rightarrow> [] | x # xs \<Rightarrow> if cls_ok c x then [(xs, g)] else [])"
| "run (Star c) (s, g) = map (\<lambda>s'. (s', g)) (star_greedy (cls_ok c) s)"
| "run (StarLazy c) (s, g) = map (\<lambda>s'. (s', g)) (star_lazy (cls_ok c) s)"
| "run (Plus c) (s, g) =
     (case s of [] \<Rightarrow> []
      | x # xs \<Rightarrow> if cls_ok c x then map (\<lambda>s'. (s', g)) (star_greedy (cls_ok c) xs) else [])"
| "run (Opt r) (s, g) = filter (\<lambda>st. length (fst st) < length s) (run r (s, g)) @ [(s, g)]"
| "run (Grp n r) (s, g) =
     map (\<lambda>st. (fst st, (snd st)(n \<mapsto> take (length s - length (fst st)) s))) (run r (s, g))"
| "run (Seq a b) st = concat (map (run b) (run a st))"
| "run (Alt a b) st = run a st @ run b st"

text \<open>The match at the start of \<open>s\<close>, if there is one: what remains of the input, and
  the captures.\<close>

definition match_here :: "re \<Rightarrow> string \<Rightarrow> mstate option" where
  "match_here r s = (case run r (s, Map.empty) of [] \<Rightarrow> None | st # _ \<Rightarrow> Some st)"

text \<open>
  \<open>s.replace(r, f)\<close> and \<open>s.match(r)\<close> for a regular expression with the \<open>g\<close> flag:
  the input is scanned from the left; where \<open>r\<close> matches, the match is replaced
  (collected) and the scan goes on behind it; elsewhere one character is kept (skipped).
  After an empty match the scan moves on by one character; what remains after a match
  is a suffix of the input, so the test \<open>length s' < length s\<close> says that the match
  is not empty. \<open>match\<close> gives \<open>null\<close> when nothing matches, here the empty list
  (the source iterates over neither).
\<close>

function replace_all :: "re \<Rightarrow> (string \<Rightarrow> captures \<Rightarrow> string) \<Rightarrow> string \<Rightarrow> string" where
  "replace_all r f s =
     (case match_here r s of
        Some (s', g) \<Rightarrow>
          if length s' < length s then f (take (length s - length s') s) g @ replace_all r f s'
          else f [] g @ (case s of [] \<Rightarrow> [] | c # cs \<Rightarrow> c # replace_all r f cs)
      | None \<Rightarrow> (case s of [] \<Rightarrow> [] | c # cs \<Rightarrow> c # replace_all r f cs))"
  by pat_completeness auto
termination
  by (relation "measure (\<lambda>(r, f, s). length s)") auto

declare replace_all.simps [simp del]

function match_all :: "re \<Rightarrow> string \<Rightarrow> string list" where
  "match_all r s =
     (case match_here r s of
        Some (s', g) \<Rightarrow>
          if length s' < length s then take (length s - length s') s # match_all r s'
          else [] # (case s of [] \<Rightarrow> [] | c # cs \<Rightarrow> match_all r cs)
      | None \<Rightarrow> (case s of [] \<Rightarrow> [] | c # cs \<Rightarrow> match_all r cs))"
  by pat_completeness auto
termination
  by (relation "measure (\<lambda>(r, s). length s)") auto

declare match_all.simps [simp del]

text \<open>\<open>r.test(s)\<close> for an expression that starts with \<open>^\<close>: only a match at the start
  of the input counts.\<close>

definition test_anchored :: "re \<Rightarrow> string \<Rightarrow> bool" where
  "test_anchored r s = (match_here r s \<noteq> None)"

text \<open>A replacement string: text and references \<open>$n\<close> to captures; a capture that did not
  take part gives the empty string.\<close>

datatype piece = Txt string | Ref nat

fun expand :: "piece list \<Rightarrow> string \<Rightarrow> captures \<Rightarrow> string" where
  "expand [] m g = []"
| "expand (Txt w # ps) m g = w @ expand ps m g"
| "expand (Ref n # ps) m g = (case g n of None \<Rightarrow> [] | Some w \<Rightarrow> w) @ expand ps m g"

subsection \<open>links\<close>

text \<open>\<^verbatim>\<open>/\[\[.*?\]\]/g\<close>\<close>

definition link_re :: re where
  "link_re = Seq (Lit ''[['') (Seq (StarLazy Dot) (Lit '']]''))"

text \<open>\<^verbatim>\<open>/\[\[(?:([^\]]*)\->|([^\]]*?)<\-)([^\]]*)(?:\]\[.*?)?\]\]/g\<close>\<close>

definition arrow_re :: re where
  "arrow_re =
     Seq (Lit ''[['')
    (Seq (Alt (Seq (Grp 1 (Star (NotOf '']''))) (Lit ''->''))
              (Seq (Grp 2 (StarLazy (NotOf '']''))) (Lit ''<-'')))
    (Seq (Grp 3 (Star (NotOf '']'')))
    (Seq (Opt (Seq (Lit '']['') (StarLazy Dot)))
         (Lit '']]''))))"

text \<open>\<open>arrowReplacer = (a, b, c, d) => c || d\<close>: \<open>c\<close> is the second capture, \<open>d\<close> the
  third; an undefined or empty \<open>c\<close> gives \<open>d\<close>.\<close>

definition arrowReplacer :: "string \<Rightarrow> captures \<Rightarrow> string" where
  "arrowReplacer a g =
     (case g 2 of
        Some c \<Rightarrow> if c \<noteq> [] then c else (case g 3 of Some d \<Rightarrow> d | None \<Rightarrow> ''undefined'')
      | None \<Rightarrow> (case g 3 of Some d \<Rightarrow> d | None \<Rightarrow> ''undefined''))"

text \<open>\<^verbatim>\<open>/\[\[([^\|\]]*?)\|([^\|\]]*)?(?:\]\[.*?)?\]\]/g\<close>\<close>

definition tiddly_re :: re where
  "tiddly_re =
     Seq (Lit ''[['')
    (Seq (Grp 1 (StarLazy (NotOf ''|]'')))
    (Seq (Lit ''|'')
    (Seq (Opt (Grp 2 (Star (NotOf ''|]''))))
    (Seq (Opt (Seq (Lit '']['') (StarLazy Dot)))
         (Lit '']]'')))))"

text \<open>\<^verbatim>\<open>/\[\[|(?:\]\[.*?)?\]\]/g\<close>\<close>

definition bracket_re :: re where
  "bracket_re = Alt (Lit ''[['') (Seq (Opt (Seq (Lit '']['') (StarLazy Dot))) (Lit '']]''))"

text \<open>\<^verbatim>\<open>/^\w+:\/\/\/?\w/i\<close> (the \<open>i\<close> flag changes neither \<open>\w\<close> nor the other characters)\<close>

definition uri_re :: re where
  "uri_re = Seq (Plus Word) (Seq (Lit ''://'') (Seq (Opt (Lit ''/'')) (One Word)))"

text \<open>The three replacements that turn one match of \<open>link_re\<close> into its link.\<close>

definition link_of :: "string \<Rightarrow> string" where
  "link_of m =
     replace_all bracket_re (expand [])
       (replace_all tiddly_re (expand [Ref 2])
          (replace_all arrow_re arrowReplacer m))"

text \<open>
  \<open>found\<close> is an object literal \<open>{}\<close>: besides the properties the loop adds, reading it
  finds the properties of \<open>Object.prototype\<close>, so \<open>found[link] === undefined\<close> is false
  for their names.
\<close>

definition Object_prototype :: "string list" where
  "Object_prototype =
     [''constructor'', ''hasOwnProperty'', ''isPrototypeOf'', ''propertyIsEnumerable'',
      ''toLocaleString'', ''toString'', ''valueOf'', ''__proto__'', ''__defineGetter__'',
      ''__defineSetter__'', ''__lookupGetter__'', ''__lookupSetter__'']"

definition is_undefined :: "(string \<Rightarrow> bool option) \<Rightarrow> string \<Rightarrow> bool" where
  "is_undefined found link = (found link = None \<and> link \<notin> set Object_prototype)"

fun links_loop ::
  "string list \<Rightarrow> (string \<Rightarrow> bool option) \<Rightarrow> string list \<Rightarrow> string list" where
  "links_loop [] found result = result"
| "links_loop (m # ms) found result =
     (let link = link_of m in
      if link \<noteq> [] \<and> is_undefined found link
      then links_loop ms (found(link \<mapsto> True)) (result @ [link])
      else links_loop ms found result)"

definition links :: "passage \<Rightarrow> bool \<Rightarrow> string list" where
  "links this internalOnly =
     (let result = links_loop (match_all link_re (attr_text this)) Map.empty [] in
      if internalOnly then filter (\<lambda>link. \<not> test_anchored uri_re link) result
      else result)"

subsection \<open>replaceLink\<close>

text \<open>
  replaceLink compiles three patterns from the text of \<open>oldLink\<close> and inserts
  \<open>newLink\<close> into three replacement strings. The model covers an \<open>oldLink\<close> without
  characters of the pattern syntax (the backslash, 0x5C, and \<open>^$.*+?()[]{}|\<close>), which
  the pattern matches literally, and a
  \<open>newLink\<close> without \<open>$\<close>, which the replacement inserts literally; for other
  arguments no result is modelled (\<open>None\<close>).
\<close>

definition pattern_literal :: "string \<Rightarrow> bool" where
  "pattern_literal w = list_all (\<lambda>c. c \<notin> set (CHR 0x5C # ''^$.*+?()[]{}|'')) w"

definition replacement_literal :: "string \<Rightarrow> bool" where
  "replacement_literal w = list_all (\<lambda>c. c \<noteq> CHR ''$'') w"

text \<open>\<^verbatim>\<open>'\\[\\[' + oldLink + '(\\]\\[.*?)?\\]\\]'\<close>\<close>

definition simpleLinkRegexp :: "string \<Rightarrow> re" where
  "simpleLinkRegexp oldLink =
     Seq (Lit ''[['')
    (Seq (Lit oldLink)
    (Seq (Opt (Grp 1 (Seq (Lit '']['') (StarLazy Dot))))
         (Lit '']]'')))"

text \<open>\<^verbatim>\<open>'\\[\\[(.*?)(\\||->)' + oldLink + '(\\]\\[.*?)?\\]\\]'\<close>\<close>

definition compoundLinkRegexp :: "string \<Rightarrow> re" where
  "compoundLinkRegexp oldLink =
     Seq (Lit ''[['')
    (Seq (Grp 1 (StarLazy Dot))
    (Seq (Grp 2 (Alt (Lit ''|'') (Lit ''->'')))
    (Seq (Lit oldLink)
    (Seq (Opt (Grp 3 (Seq (Lit '']['') (StarLazy Dot))))
         (Lit '']]'')))))"

text \<open>\<^verbatim>\<open>'\\[\\[' + oldLink + '(<-.*?)(\\]\\[.*?)?\\]\\]'\<close>\<close>

definition reverseLinkRegexp :: "string \<Rightarrow> re" where
  "reverseLinkRegexp oldLink =
     Seq (Lit ''[['')
    (Seq (Lit oldLink)
    (Seq (Grp 1 (Seq (Lit ''<-'') (StarLazy Dot)))
    (Seq (Opt (Grp 2 (Seq (Lit '']['') (StarLazy Dot))))
         (Lit '']]''))))"

text \<open>The local variable \<open>text\<close> after the three replacements.\<close>

definition replaceLink_text :: "string \<Rightarrow> string \<Rightarrow> string \<Rightarrow> string" where
  "replaceLink_text oldLink newLink oldText =
     replace_all (reverseLinkRegexp oldLink)
       (expand [Txt ''[['', Txt newLink, Ref 1, Ref 2, Txt '']]''])
       (replace_all (compoundLinkRegexp oldLink)
          (expand [Txt ''[['', Ref 1, Ref 2, Txt newLink, Ref 3, Txt '']]''])
          (replace_all (simpleLinkRegexp oldLink)
             (expand [Txt ''[['', Txt newLink, Ref 1, Txt '']]''])
             oldText))"

text \<open>What the call does to persistence: \<open>this.save({ text: text })\<close> or nothing.\<close>

datatype persistence = Save_text string | No_save

definition replaceLink :: "passage \<Rightarrow> string \<Rightarrow> string \<Rightarrow> persistence option" where
  "replaceLink this oldLink newLink =
     (if pattern_literal oldLink \<and> replacement_literal newLink
      then (let oldText = attr_text this;
                text = replaceLink_text oldLink newLink oldText
            in if text \<noteq> oldText then Some (Save_text text) else Some No_save)
      else None)"

subsection \<open>Notions used to state the properties of links\<close>

text \<open>The list without the repetitions of an element seen before (\<open>seen\<close> holds the
  elements seen so far): deduplication that preserves the first-seen order.\<close>

fun first_seen :: "'a list \<Rightarrow> 'a list \<Rightarrow> 'a list" where
  "first_seen seen [] = []"
| "first_seen seen (x # xs) =
     (if x \<in> set seen then first_seen seen xs else x # first_seen (x # seen) xs)"

text \<open>\<open>needs w r\<close>: by its shape, every match of \<open>r\<close> contains the text \<open>w\<close>.\<close>

fun needs :: "string \<Rightarrow> re \<Rightarrow> bool" where
  "needs w (Lit v) = sublist w v"
| "needs w (Seq a b) = (needs w a \<or> needs w b)"
| "needs w (Alt a b) = (needs w a \<and> needs w b)"
| "needs w (Grp n r) = needs w r"
| "needs w r = False"


text \<open>
  The links that look like an absolute URI, in the words of the specification
  (\<open>word+://...\<close>): a scheme of one or more word characters (a letter of a to z or A to
  Z, a digit or the underscore, here by their codes), then \<open>://\<close>, then a word
  character, with or without a third slash before it.
\<close>

definition word_char :: "char \<Rightarrow> bool" where
  "word_char c =
     (let n = of_char c :: nat in
      (48 \<le> n \<and> n \<le> 57) \<or> (65 \<le> n \<and> n \<le> 90) \<or> n = 95 \<or> (97 \<le> n \<and> n \<le> 122))"

fun begins_word :: "string \<Rightarrow> bool" where
  "begins_word [] = False"
| "begins_word (c # cs) = word_char c"

definition absolute_uri :: "string \<Rightarrow> bool" where
  "absolute_uri l =
     (let scheme = takeWhile word_char l; rest = dropWhile word_char l in
      scheme \<noteq> [] \<and> take 3 rest = ''://'' \<and>
      (begins_word (drop 3 rest) \<or> (take 1 (drop 3 rest) = ''/'' \<and> begins_word (drop 4 rest))))"
section \<open>Properties of the layout resolver\<close>

subsection \<open>Rounding\<close>

lemma rne_of_int [simp]: "rne (of_int n) = n"
  by (simp add: rne_def)

lemma rne_0 [simp]: "rne 0 = 0"
  by (simp add: rne_def)

lemma rne_bounds: "y - 1 / 2 \<le> of_int (rne y) \<and> of_int (rne y) \<le> y + 1 / 2"
  unfolding rne_def Let_def by (auto; linarith)

lemma int_bound: "\<bar>of_int r :: real\<bar> < of_int N + 1 \<Longrightarrow> \<bar>r\<bar> \<le> N"
  by linarith

lemma two_powi_less: "(2::real) powi m < 2 powi n \<Longrightarrow> m < n"
  using power_int_increasing [of n m "2::real"] by (cases "m < n") auto

lemma binade_eq:
  assumes "min_exponent \<le> e" and "e < max_exponent"
    and "2 powi e \<le> \<bar>x\<bar>" and "\<bar>x\<bar> < 2 powi (e + 1)"
  shows "binade x = e"
proof -
  have le: "2 powi i \<le> \<bar>x\<bar>" if "i \<le> e" for i :: int
  proof -
    have "(2::real) powi i \<le> 2 powi e" using that by (intro power_int_increasing) simp_all
    with assms(3) show ?thesis by linarith
  qed
  have gt: "\<not> 2 powi i \<le> \<bar>x\<bar>" if "e < i" for i :: int
  proof -
    have "(2::real) powi (e + 1) \<le> 2 powi i" using that by (intro power_int_increasing) simp_all
    with assms(4) show ?thesis by linarith
  qed
  have s: "[min_exponent..max_exponent] = [min_exponent..e] @ [e + 1..max_exponent]"
    using assms(1,2) by (intro upto_split2) simp_all
  have 1: "filter (\<lambda>i. 2 powi i \<le> \<bar>x\<bar>) [min_exponent..e] = [min_exponent..e]"
    using le by (intro filter_True) simp
  have 2: "filter (\<lambda>i. 2 powi i \<le> \<bar>x\<bar>) [e + 1..max_exponent] = []"
    using gt by (intro filter_False) simp
  have 3: "[min_exponent..e] = [min_exponent..e - 1] @ [e]"
    using assms(1) by (rule upto_rec2)
  have "filter (\<lambda>i. 2 powi i \<le> \<bar>x\<bar>) [min_exponent..max_exponent] = [min_exponent..e - 1] @ [e]"
    unfolding s filter_append 1 2 using 3 by simp
  then show ?thesis
    unfolding binade_def by simp
qed

lemma binade_0: "binade 0 = min_exponent - 1"
proof -
  have "filter (\<lambda>e. (2::real) powi e \<le> \<bar>0\<bar>) [min_exponent..max_exponent] = []"
    by (intro filter_False) (simp add: not_le)
  then show ?thesis unfolding binade_def by simp
qed

lemma round_double_0: "round_double 0 = Num 0"
proof -
  have "(0::real) < 2 powi max_exponent" by simp
  then show ?thesis
    unfolding round_double_def Let_def by (simp add: not_le)
qed

lemma binade_exists:
  fixes x :: real
  assumes "x \<noteq> 0"
  shows "\<exists>e. 2 powi e \<le> \<bar>x\<bar> \<and> \<bar>x\<bar> < 2 powi (e + 1)"
proof -
  let ?e = "\<lfloor>log 2 \<bar>x\<bar>\<rfloor>"
  have p: "0 < \<bar>x\<bar>" using assms by simp
  have "2 powr (of_int ?e) \<le> 2 powr (log 2 \<bar>x\<bar>)"
    by (intro powr_mono) simp_all
  then have 1: "2 powi ?e \<le> \<bar>x\<bar>"
    using p by (simp add: powr_real_of_int')
  have "log 2 \<bar>x\<bar> < of_int (?e + 1)" by linarith
  then have "2 powr (log 2 \<bar>x\<bar>) < 2 powr (of_int (?e + 1))"
    by (intro powr_less_mono) simp_all
  then have 2: "\<bar>x\<bar> < 2 powi (?e + 1)"
    using p by (simp add: powr_real_of_int' del: of_int_add)
  from 1 2 show ?thesis by blast
qed

text \<open>A number with a significand of 53 bits and an exponent of the format is a double:
  rounding keeps it.\<close>

lemma round_double_exact:
  assumes x: "x = of_int k * 2 powi m" and k: "\<bar>k\<bar> < 2 ^ 53"
    and m: "min_exponent \<le> m" "m + 53 \<le> max_exponent"
  shows "round_double x = Num x"
proof (cases "x = 0")
  case True
  then show ?thesis by (simp add: round_double_0)
next
  case False
  then have k0: "k \<noteq> 0" using x by auto
  from binade_exists [OF False] obtain e where
    e: "2 powi e \<le> \<bar>x\<bar>" "\<bar>x\<bar> < 2 powi (e + 1)" by blast
  have ax: "\<bar>x\<bar> = of_int \<bar>k\<bar> * 2 powi m"
    by (simp add: x abs_mult)
  have "2 powi m \<le> \<bar>x\<bar>"
  proof -
    have "1 \<le> \<bar>k\<bar>" using k0 by simp
    then have "(1::real) \<le> of_int \<bar>k\<bar>" by linarith
    then have "1 * 2 powi m \<le> of_int \<bar>k\<bar> * (2::real) powi m"
      by (intro mult_right_mono) simp_all
    then show ?thesis by (simp add: ax)
  qed
  with e(2) have "(2::real) powi m < 2 powi (e + 1)" by linarith
  then have me: "m \<le> e" using two_powi_less by fastforce
  have u: "\<bar>x\<bar> < 2 powi (m + 53)"
  proof -
    have "of_int \<bar>k\<bar> < (2::real) ^ 53" using k by (metis of_int_less_numeral_power_cancel_iff)
    then have "of_int \<bar>k\<bar> * (2::real) powi m < 2 ^ 53 * 2 powi m"
      by (intro mult_strict_right_mono) simp_all
    then show ?thesis by (simp add: ax power_int_add)
  qed
  with e(1) have "(2::real) powi e < 2 powi (m + 53)" by linarith
  then have em: "e \<le> m + 52" using two_powi_less by fastforce
  have b: "binade x = e"
    using me em m e by (intro binade_eq) simp_all
  define j where "j = max e (min_exponent + 52) - 52"
  have jm: "j \<le> m" using em m by (simp add: j_def)
  have q: "quantum x = 2 powi j" by (simp add: quantum_def b j_def)
  have "x / 2 powi j = of_int k * 2 powi (m - j)"
    by (simp add: x power_int_diff)
  also have "\<dots> = of_int (k * 2 ^ nat (m - j))"
    using jm by (simp add: power_int_def)
  finally have d: "x / 2 powi j = of_int (k * 2 ^ nat (m - j))" .
  have "of_int (rne (x / 2 powi j)) * 2 powi j = x / 2 powi j * 2 powi j"
    unfolding d rne_of_int ..
  then have y: "of_int (rne (x / quantum x)) * quantum x = x"
    unfolding q by simp
  have "(2::real) powi (m + 53) \<le> 2 powi max_exponent"
    using m by (intro power_int_increasing) simp_all
  with u have "\<bar>x\<bar> < 2 powi max_exponent" by linarith
  then show ?thesis
    unfolding round_double_def Let_def y by (auto simp: abs_less_iff)
qed

lemma half_int_Ints: "half_int x = (2 * x \<in> \<int>)"
  unfolding half_int_def by (metis Ints_of_int floor_of_int Ints_cases)

lemma round_double_half:
  assumes "half_int x" and "\<bar>x\<bar> < 2 ^ 52"
  shows "round_double x = Num x"
proof (rule round_double_exact [where k = "\<lfloor>2 * x\<rfloor>" and m = "- 1"])
  have h: "of_int \<lfloor>2 * x\<rfloor> = 2 * x" using assms(1) unfolding half_int_def .
  have "(2::real) powi (- 1) = 1 / 2" by (simp add: power_int_minus)
  then show "x = of_int \<lfloor>2 * x\<rfloor> * 2 powi (- 1)" unfolding h by simp
  have "\<bar>2 * x\<bar> < 2 ^ 53" using assms(2) by simp
  then have "\<bar>of_int \<lfloor>2 * x\<rfloor> :: real\<bar> < 2 ^ 53" unfolding h .
  then show "\<bar>\<lfloor>2 * x\<rfloor>\<bar> < 2 ^ 53"
    by (metis of_int_abs of_int_less_numeral_power_cancel_iff)
qed (simp_all add: min_exponent_def max_exponent_def)

text \<open>In a binade of the normal numbers the result is the multiple of the quantum next
  to the exact value.\<close>

lemma round_double_binade:
  assumes "min_exponent + 52 \<le> e" and "e + 1 < max_exponent"
    and "2 powi e \<le> \<bar>x\<bar>" and "\<bar>x\<bar> < 2 powi (e + 1)"
  shows "round_double x = Num (of_int (rne (x / 2 powi (e - 52))) * 2 powi (e - 52))"
proof -
  have b: "binade x = e"
    using assms by (intro binade_eq) simp_all
  have q: "quantum x = 2 powi (e - 52)"
    using assms(1) by (simp add: quantum_def b max_def)
  define z where "z = x / 2 powi (e - 52)"
  have "\<bar>x\<bar> / 2 powi (e - 52) < 2 powi (e + 1) / 2 powi (e - 52)"
    using assms(4) by (intro divide_strict_right_mono) simp_all
  also have "(2::real) powi (e + 1) / 2 powi (e - 52) = 2 powi 53"
    by (simp flip: power_int_diff)
  finally have "\<bar>z\<bar> < 2 ^ 53" by (simp add: z_def)
  with rne_bounds [of z] have "\<bar>of_int (rne z) :: real\<bar> < 2 ^ 53 + 1"
    by linarith
  then have "\<bar>rne z\<bar> \<le> 2 ^ 53"
    using int_bound [of "rne z" "2 ^ 53"] by simp
  then have "\<bar>of_int (rne z) :: real\<bar> \<le> 2 ^ 53"
    by (simp flip: of_int_abs)
  then have "\<bar>of_int (rne z)\<bar> * 2 powi (e - 52) \<le> 2 ^ 53 * (2::real) powi (e - 52)"
    by (intro mult_right_mono) simp_all
  also have "2 ^ 53 * (2::real) powi (e - 52) = 2 powi (e + 1)"
    by (simp add: power_int_add power_int_diff)
  also have "\<dots> < 2 powi max_exponent"
    using assms(2) by (intro power_int_strict_increasing) simp_all
  finally have "\<bar>of_int (rne z) * 2 powi (e - 52)\<bar> < (2::real) powi max_exponent"
    by (simp add: abs_mult)
  then show ?thesis
    unfolding round_double_def Let_def q z_def [symmetric] by (auto simp: abs_less_iff)
qed

subsection \<open>Exact arithmetic on the grid\<close>

lemma half_int_add: "half_int a \<Longrightarrow> half_int b \<Longrightarrow> half_int (a + b)"
  unfolding half_int_Ints by (simp add: distrib_left)

lemma half_int_minus: "half_int a \<Longrightarrow> half_int (- a)"
  unfolding half_int_Ints by simp

lemma half_int_diff: "half_int a \<Longrightarrow> half_int b \<Longrightarrow> half_int (a - b)"
  unfolding half_int_Ints by (simp add: right_diff_distrib)

lemma half_int_half: "x \<in> \<int> \<Longrightarrow> half_int (x / 2)"
  unfolding half_int_Ints by simp

lemma half_int_numeral_half [simp]: "half_int (numeral n / 2)"
  by (rule half_int_half) simp

lemma half_int_numerals [simp]:
  "half_int 0" "half_int (numeral n)" "half_int 12.5" "half_int 112.5" "half_int 137.5"
  unfolding half_int_Ints by simp_all

lemma js_add_exact:
  "half_int a \<Longrightarrow> half_int b \<Longrightarrow> \<bar>a + b\<bar> < 2 ^ 52 \<Longrightarrow> js_add (Num a) (Num b) = Num (a + b)"
  by (simp add: round_double_half half_int_add)

lemma js_sub_exact:
  "half_int a \<Longrightarrow> half_int b \<Longrightarrow> \<bar>a - b\<bar> < 2 ^ 52 \<Longrightarrow> js_sub (Num a) (Num b) = Num (a - b)"
  by (simp add: js_sub_def round_double_half half_int_diff)

lemma js_mul_padding: "js_mul (Num 12.5) (Num 2) = Num 25"
  using round_double_half [of 25] by simp

text \<open>The sums and differences of intersects and displace, for coordinates \<open>u\<close> and
  \<open>v\<close> of the grid, and for the coordinates that displace writes (up to 125 beyond
  the grid).\<close>

lemma axis_exact:
  assumes "half_int u" "\<bar>u\<bar> \<le> 2 ^ 50 + 125" "half_int v" "\<bar>v\<bar> \<le> 2 ^ 50 + 125"
  shows "js_sub (Num u) (Num 12.5) = Num (u - 12.5)"
    and "js_add (js_add (Num u) (Num 100)) (Num 12.5) = Num (u + 112.5)"
    and "js_add (js_add (Num (u - 12.5)) (Num 100)) (js_mul (Num 12.5) (Num 2)) = Num (u + 112.5)"
    and "js_add (js_add (js_sub (Num (v - 12.5)) (Num (u - 12.5))) (Num 100)) (Num 12.5) =
           Num (v - u + 112.5)"
    and "js_add (js_sub (Num (u + 112.5)) (Num (v - 12.5))) (Num 12.5) = Num (u - v + 137.5)"
    and "js_add (Num (v - 12.5)) (Num (- (v - u + 112.5))) = Num (u - 125)"
    and "js_add (Num (v - 12.5)) (Num (u - v + 137.5)) = Num (u + 125)"
proof -
  have b: "(2::real) ^ 50 + 125 = 1125899906842749" "(2::real) ^ 52 = 4503599627370496"
    by simp_all
  note h = assms(1,3) half_int_add half_int_diff half_int_minus half_int_numerals
  show "js_sub (Num u) (Num 12.5) = Num (u - 12.5)"
    using assms(2) by (subst js_sub_exact) (simp_all add: h b)
  have 1: "js_add (Num u) (Num 100) = Num (u + 100)"
    using assms(2) by (subst js_add_exact) (simp_all add: h b)
  have 2: "js_add (Num (u + 100)) (Num 12.5) = Num (u + 100 + 12.5)"
    using assms(2) by (subst js_add_exact) (simp_all add: h b)
  show "js_add (js_add (Num u) (Num 100)) (Num 12.5) = Num (u + 112.5)"
    unfolding 1 2 by simp
  have 3: "js_add (Num (u - 12.5)) (Num 100) = Num (u - 12.5 + 100)"
    using assms(2) by (subst js_add_exact) (simp_all add: h b)
  have 4: "js_add (Num (u - 12.5 + 100)) (Num 25) = Num (u - 12.5 + 100 + 25)"
    using assms(2) by (subst js_add_exact) (simp_all add: h b)
  show "js_add (js_add (Num (u - 12.5)) (Num 100)) (js_mul (Num 12.5) (Num 2)) = Num (u + 112.5)"
    unfolding 3 js_mul_padding 4 by simp
  have 5: "js_sub (Num (v - 12.5)) (Num (u - 12.5)) = Num (v - 12.5 - (u - 12.5))"
    using assms(2,4) by (subst js_sub_exact) (simp_all add: h b)
  have 6: "js_add (Num (v - 12.5 - (u - 12.5))) (Num 100) = Num (v - 12.5 - (u - 12.5) + 100)"
    using assms(2,4) by (subst js_add_exact) (simp_all add: h b)
  have 7: "js_add (Num (v - 12.5 - (u - 12.5) + 100)) (Num 12.5) =
           Num (v - 12.5 - (u - 12.5) + 100 + 12.5)"
    using assms(2,4) by (subst js_add_exact) (simp_all add: h b)
  show "js_add (js_add (js_sub (Num (v - 12.5)) (Num (u - 12.5))) (Num 100)) (Num 12.5) =
           Num (v - u + 112.5)"
    unfolding 5 6 7 by simp
  have 8: "js_sub (Num (u + 112.5)) (Num (v - 12.5)) = Num (u + 112.5 - (v - 12.5))"
    using assms(2,4) by (subst js_sub_exact) (simp_all add: h b)
  have 9: "js_add (Num (u + 112.5 - (v - 12.5))) (Num 12.5) = Num (u + 112.5 - (v - 12.5) + 12.5)"
    using assms(2,4) by (subst js_add_exact) (simp_all add: h b)
  show "js_add (js_sub (Num (u + 112.5)) (Num (v - 12.5))) (Num 12.5) = Num (u - v + 137.5)"
    unfolding 8 9 by simp
  have 10: "js_add (Num (v - 12.5)) (Num (- (v - u + 112.5))) = Num (v - 12.5 + - (v - u + 112.5))"
    using assms(2,4) by (subst js_add_exact) (simp_all add: h b)
  show "js_add (Num (v - 12.5)) (Num (- (v - u + 112.5))) = Num (u - 125)"
    unfolding 10 by simp
  have 11: "js_add (Num (v - 12.5)) (Num (u - v + 137.5)) = Num (v - 12.5 + (u - v + 137.5))"
    using assms(2,4) by (subst js_add_exact) (simp_all add: h b)
  show "js_add (Num (v - 12.5)) (Num (u - v + 137.5)) = Num (u + 125)"
    unfolding 11 by simp
qed

lemma overlap_exact:
  assumes "half_int u" "\<bar>u\<bar> \<le> 2 ^ 50 + 125" "half_int v" "\<bar>v\<bar> \<le> 2 ^ 50 + 125"
  shows "js_sub (js_min (Num (u + 112.5)) (Num (v + 112.5))) (js_max (Num (u - 12.5)) (Num (v - 12.5))) =
           Num (min (u + 112.5) (v + 112.5) - max (u - 12.5) (v - 12.5))"
proof -
  have b: "(2::real) ^ 50 + 125 = 1125899906842749" "(2::real) ^ 52 = 4503599627370496"
    by simp_all
  note h = assms(1,3) half_int_add half_int_diff half_int_minus half_int_numerals
  have m: "js_min (Num (u + 112.5)) (Num (v + 112.5)) = Num (min (u + 112.5) (v + 112.5))"
    "js_max (Num (u - 12.5)) (Num (v - 12.5)) = Num (max (u - 12.5) (v - 12.5))"
    by (auto simp: js_min_def js_max_def min_def max_def)
  have hm: "half_int (min (u + 112.5) (v + 112.5))" "half_int (max (u - 12.5) (v - 12.5))"
    by (simp_all add: min_def max_def h)
  show ?thesis
    unfolding m using assms(2,4) hm by (subst js_sub_exact) (auto simp: b min_def max_def)
qed

lemmas geom_defs = padded_left_def padded_right_def padded_top_def padded_bottom_def
  xOverlap_def yOverlap_def leftMove_def rightMove_def upMove_def downMove_def
  Passage_padding_def Passage_width_def Passage_height_def

lemma grid_coordinate_Num:
  "grid_coordinate v = (\<exists>x. v = Num x \<and> half_int x \<and> \<bar>x\<bar> \<le> 2 ^ 50)"
  by (cases v) (simp_all add: grid_coordinate_def)

text \<open>On the grid the four inequalities of intersects say that the passages are less than
  125 apart on both axes.\<close>

lemma intersects_grid:
  assumes "attr_left a = Num al" "half_int al" "\<bar>al\<bar> \<le> 2 ^ 50 + 125"
    and "attr_top a = Num au" "half_int au" "\<bar>au\<bar> \<le> 2 ^ 50 + 125"
    and "attr_left b = Num bl" "half_int bl" "\<bar>bl\<bar> \<le> 2 ^ 50 + 125"
    and "attr_top b = Num bu" "half_int bu" "\<bar>bu\<bar> \<le> 2 ^ 50 + 125"
  shows "intersects a b = (\<bar>al - bl\<bar> < 125 \<and> \<bar>au - bu\<bar> < 125)"
proof -
  note l = axis_exact(1,2) [OF assms(2,3,8,9)] axis_exact(1,2) [OF assms(8,9,2,3)]
  note t = axis_exact(1,2) [OF assms(5,6,11,12)] axis_exact(1,2) [OF assms(11,12,5,6)]
  show ?thesis
    unfolding intersects_def Let_def Passage_padding_def Passage_width_def Passage_height_def
      assms(1,4,7,10) l t js_gt_def
    by auto
qed

text \<open>On an overlapping pair of the grid both overlaps are positive, so both changes are
  numbers.\<close>

lemma xChange_grid:
  assumes "attr_left a = Num al" "half_int al" "\<bar>al\<bar> \<le> 2 ^ 50 + 125"
    and "attr_left b = Num bl" "half_int bl" "\<bar>bl\<bar> \<le> 2 ^ 50 + 125"
    and "\<bar>al - bl\<bar> < 125"
  shows "leftMove a b = Num (bl - al + 112.5)" "rightMove a b = Num (al - bl + 137.5)"
    "xChange a b = Some (Num (if bl - al + 112.5 < al - bl + 137.5
                              then - (bl - al + 112.5) else al - bl + 137.5))"
    "padded_left b = Num (bl - 12.5)"
proof -
  note e = axis_exact [OF assms(2,3,5,6)] axis_exact(1,3) [OF assms(5,6,2,3)]
    overlap_exact [OF assms(2,3,5,6)]
  show lm: "leftMove a b = Num (bl - al + 112.5)"
    unfolding geom_defs assms(1,4) e ..
  show rm: "rightMove a b = Num (al - bl + 137.5)"
    unfolding geom_defs assms(1,4) e ..
  show "padded_left b = Num (bl - 12.5)"
    unfolding geom_defs assms(1,4) e ..
  have o: "xOverlap a b = Num (min (al + 112.5) (bl + 112.5) - max (al - 12.5) (bl - 12.5))"
    unfolding geom_defs assms(1,4) e ..
  have "min (al + 112.5) (bl + 112.5) - max (al - 12.5) (bl - 12.5) \<noteq> 0"
    using assms(7) by (auto simp: min_def max_def)
  then show "xChange a b = Some (Num (if bl - al + 112.5 < al - bl + 137.5
                              then - (bl - al + 112.5) else al - bl + 137.5))"
    unfolding xChange_def o lm rm by simp
qed

lemma yChange_grid:
  assumes "attr_top a = Num au" "half_int au" "\<bar>au\<bar> \<le> 2 ^ 50 + 125"
    and "attr_top b = Num bu" "half_int bu" "\<bar>bu\<bar> \<le> 2 ^ 50 + 125"
    and "\<bar>au - bu\<bar> < 125"
  shows "upMove a b = Num (bu - au + 112.5)" "downMove a b = Num (au - bu + 137.5)"
    "yChange a b = Some (Num (if bu - au + 112.5 < au - bu + 137.5
                              then - (bu - au + 112.5) else au - bu + 137.5))"
    "padded_top b = Num (bu - 12.5)"
proof -
  note e = axis_exact [OF assms(2,3,5,6)] axis_exact(1,3) [OF assms(5,6,2,3)]
    overlap_exact [OF assms(2,3,5,6)]
  show lm: "upMove a b = Num (bu - au + 112.5)"
    unfolding geom_defs assms(1,4) e ..
  show rm: "downMove a b = Num (au - bu + 137.5)"
    unfolding geom_defs assms(1,4) e ..
  show "padded_top b = Num (bu - 12.5)"
    unfolding geom_defs assms(1,4) e ..
  have o: "yOverlap a b = Num (min (au + 112.5) (bu + 112.5) - max (au - 12.5) (bu - 12.5))"
    unfolding geom_defs assms(1,4) e ..
  have "min (au + 112.5) (bu + 112.5) - max (au - 12.5) (bu - 12.5) \<noteq> 0"
    using assms(7) by (auto simp: min_def max_def)
  then show "yChange a b = Some (Num (if bu - au + 112.5 < au - bu + 137.5
                              then - (bu - au + 112.5) else au - bu + 137.5))"
    unfolding yChange_def o lm rm by simp
qed

text \<open>The value that displace writes: 125 to the left of (above) the anchor, or 125 to
  its right (below it).\<close>

lemma written_value:
  assumes "half_int u" "\<bar>u\<bar> \<le> 2 ^ 50 + 125" "half_int v" "\<bar>v\<bar> \<le> 2 ^ 50 + 125"
  shows "js_add (Num (v - 12.5))
           (Num (if v - u + 112.5 < u - v + 137.5 then - (v - u + 112.5) else u - v + 137.5)) =
         Num (if v - u + 112.5 < u - v + 137.5 then u - 125 else u + 125)"
  using axis_exact(6,7) [OF assms] by simp

lemma on_grid_Num:
  assumes "on_grid p"
  shows "\<exists>l t. attr_left p = Num l \<and> attr_top p = Num t \<and> half_int l \<and> half_int t \<and>
           \<bar>l\<bar> \<le> 2 ^ 50 \<and> \<bar>t\<bar> \<le> 2 ^ 50"
  using assms unfolding on_grid_def grid_coordinate_Num by blast

lemma on_grid_defaults: "on_grid defaults"
  by (simp add: on_grid_def grid_coordinate_def defaults_def)


text \<open>What displace does on an overlapping pair of the grid.\<close>

lemma displace_grid:
  assumes "on_grid a" and "on_grid b" and "intersects a b"
  shows "\<exists>al au bl bu.
     attr_left a = Num al \<and> attr_top a = Num au \<and> attr_left b = Num bl \<and> attr_top b = Num bu \<and>
     half_int al \<and> half_int au \<and> half_int bl \<and> half_int bu \<and>
     \<bar>al\<bar> \<le> 2 ^ 50 \<and> \<bar>au\<bar> \<le> 2 ^ 50 \<and> \<bar>bl\<bar> \<le> 2 ^ 50 \<and> \<bar>bu\<bar> \<le> 2 ^ 50 \<and>
     \<bar>al - bl\<bar> < 125 \<and> \<bar>au - bu\<bar> < 125 \<and>
     leftMove a b = Num (bl - al + 112.5) \<and> rightMove a b = Num (al - bl + 137.5) \<and>
     upMove a b = Num (bu - au + 112.5) \<and> downMove a b = Num (au - bu + 137.5) \<and>
     xChange a b = Some (Num (if bl - al + 112.5 < al - bl + 137.5
                              then - (bl - al + 112.5) else al - bl + 137.5)) \<and>
     yChange a b = Some (Num (if bu - au + 112.5 < au - bu + 137.5
                              then - (bu - au + 112.5) else au - bu + 137.5)) \<and>
     displace a b =
       (if \<bar>if bu - au + 112.5 < au - bu + 137.5 then - (bu - au + 112.5) else au - bu + 137.5\<bar>
           < \<bar>if bl - al + 112.5 < al - bl + 137.5 then - (bl - al + 112.5) else al - bl + 137.5\<bar>
        then set_top b (Num (if bu - au + 112.5 < au - bu + 137.5 then au - 125 else au + 125))
        else set_left b (Num (if bl - al + 112.5 < al - bl + 137.5 then al - 125 else al + 125)))"
proof -
  from on_grid_Num [OF assms(1)] obtain al au where
    a: "attr_left a = Num al" "attr_top a = Num au" "half_int al" "half_int au"
      "\<bar>al\<bar> \<le> 2 ^ 50" "\<bar>au\<bar> \<le> 2 ^ 50"
    by blast
  from on_grid_Num [OF assms(2)] obtain bl bu where
    b: "attr_left b = Num bl" "attr_top b = Num bu" "half_int bl" "half_int bu"
      "\<bar>bl\<bar> \<le> 2 ^ 50" "\<bar>bu\<bar> \<le> 2 ^ 50"
    by blast
  have w: "\<bar>al\<bar> \<le> 2 ^ 50 + 125" "\<bar>au\<bar> \<le> 2 ^ 50 + 125" "\<bar>bl\<bar> \<le> 2 ^ 50 + 125"
    "\<bar>bu\<bar> \<le> 2 ^ 50 + 125"
    using a(5,6) b(5,6) by simp_all
  have d: "\<bar>al - bl\<bar> < 125" "\<bar>au - bu\<bar> < 125"
    using assms(3)
    unfolding intersects_grid [OF a(1,3) w(1) a(2,4) w(2) b(1,3) w(3) b(2,4) w(4)]
    by simp_all
  note xs = xChange_grid [OF a(1,3) w(1) b(1,3) w(3) d(1)]
  note ys = yChange_grid [OF a(2,4) w(2) b(2,4) w(4) d(2)]
  have "displace a b =
       (if \<bar>if bu - au + 112.5 < au - bu + 137.5 then - (bu - au + 112.5) else au - bu + 137.5\<bar>
           < \<bar>if bl - al + 112.5 < al - bl + 137.5 then - (bl - al + 112.5) else al - bl + 137.5\<bar>
        then set_top b (Num (if bu - au + 112.5 < au - bu + 137.5 then au - 125 else au + 125))
        else set_left b (Num (if bl - al + 112.5 < al - bl + 137.5 then al - 125 else al + 125)))"
    unfolding displace_def xs ys to_number.simps js_abs.simps js_gt_def js_lt.simps
      written_value [OF a(3) w(1) b(3) w(3)] written_value [OF a(4) w(2) b(4) w(4)] ..
  with a b d xs(1-3) ys(1-3) show ?thesis by blast
qed

lemma intersects_defaults: "intersects defaults defaults"
  using intersects_grid [of defaults 0 0 defaults 0 0] by (simp add: defaults_def)


subsection \<open>C1: displace separates the pair and moves one coordinate\<close>

text \<open>
  Away from the top and left edges, and on the grid, the documented behaviour holds: when
  the anchor is at least 125 from both edges, an overlapping pair no longer intersects after
  displace, and exactly one coordinate of the displaced passage differs.
\<close>

lemma displace_separates:
  assumes "on_grid a" and "on_grid b" and "intersects a b"
    and "attr_left a = Num al" and "attr_top a = Num au"
    and "125 \<le> al" and "125 \<le> au"
  shows "\<not> intersects a (displace a b) \<and>
         ((attr_left (displace a b) \<noteq> attr_left b) \<noteq> (attr_top (displace a b) \<noteq> attr_top b))"
proof -
  from displace_grid [OF assms(1-3)] assms(4,5) obtain bl bu where
    b: "attr_left b = Num bl" "attr_top b = Num bu"
    and h: "half_int al" "half_int au" "half_int bl" "half_int bu"
    and g: "\<bar>al\<bar> \<le> 2 ^ 50" "\<bar>au\<bar> \<le> 2 ^ 50" "\<bar>bl\<bar> \<le> 2 ^ 50" "\<bar>bu\<bar> \<le> 2 ^ 50"
    and d: "\<bar>al - bl\<bar> < 125" "\<bar>au - bu\<bar> < 125"
    and disp: "displace a b =
       (if \<bar>if bu - au + 112.5 < au - bu + 137.5 then - (bu - au + 112.5) else au - bu + 137.5\<bar>
           < \<bar>if bl - al + 112.5 < al - bl + 137.5 then - (bl - al + 112.5) else al - bl + 137.5\<bar>
        then set_top b (Num (if bu - au + 112.5 < au - bu + 137.5 then au - 125 else au + 125))
        else set_left b (Num (if bl - al + 112.5 < al - bl + 137.5 then al - 125 else al + 125)))"
    by auto
  have w: "\<bar>al\<bar> \<le> 2 ^ 50 + 125" "\<bar>au\<bar> \<le> 2 ^ 50 + 125" "\<bar>bl\<bar> \<le> 2 ^ 50 + 125"
    "\<bar>bu\<bar> \<le> 2 ^ 50 + 125"
    using g by simp_all
  define nl where "nl = (if bl - al + 112.5 < al - bl + 137.5 then al - 125 else al + 125)"
  define nu where "nu = (if bu - au + 112.5 < au - bu + 137.5 then au - 125 else au + 125)"
  have nl: "half_int nl" "\<bar>nl\<bar> \<le> 2 ^ 50 + 125" "0 \<le> nl" "nl \<noteq> bl" "\<bar>al - nl\<bar> = 125"
    using h(1) g(1) assms(6) d(1) by (auto simp: nl_def half_int_add half_int_diff)
  have nu: "half_int nu" "\<bar>nu\<bar> \<le> 2 ^ 50 + 125" "0 \<le> nu" "nu \<noteq> bu" "\<bar>au - nu\<bar> = 125"
    using h(2) g(2) assms(7) d(2) by (auto simp: nu_def half_int_add half_int_diff)
  have st: "set_top b (Num nu) = b\<lparr>attr_top := Num nu\<rparr>"
    using nu(3,4) b(2) by (simp add: set_top_def)
  have sl: "set_left b (Num nl) = b\<lparr>attr_left := Num nl\<rparr>"
    using nl(3,4) b(1) by (simp add: set_left_def)
  have it: "\<not> intersects a (b\<lparr>attr_top := Num nu\<rparr>)"
    using intersects_grid [OF assms(4) h(1) w(1) assms(5) h(2) w(2),
        of "b\<lparr>attr_top := Num nu\<rparr>" bl nu] b(1) h(3) w(3) nu(1,2,5)
    by simp
  have il: "\<not> intersects a (b\<lparr>attr_left := Num nl\<rparr>)"
    using intersects_grid [OF assms(4) h(1) w(1) assms(5) h(2) w(2),
        of "b\<lparr>attr_left := Num nl\<rparr>" nl bu] b(2) h(4) w(4) nl(1,2,5)
    by simp
  show ?thesis
    unfolding disp nl_def [symmetric] nu_def [symmetric] st sl
    using it il b nl(4) nu(4) by simp
qed

text \<open>
  C1 fails at the origin, where every new passage is created: for two passages with the
  default position (0, 0) displace chooses the move to the left, writes \<open>left = -125\<close>,
  the change handler stores 0 instead, and the passage is where it was. The pair
  intersects before and after the call, and no coordinate differs.
\<close>

theorem displace_defaults_still_intersect:
  "intersects defaults defaults \<and> displace defaults defaults = defaults \<and>
   intersects defaults (displace defaults defaults)"
proof -
  from displace_grid [OF on_grid_defaults on_grid_defaults intersects_defaults]
  have "displace defaults defaults = set_left defaults (Num (- 125))"
    by (auto simp: defaults_def)
  also have "\<dots> = defaults"
    by (simp add: set_left_def) (simp add: defaults_def)
  finally have d: "displace defaults defaults = defaults" .
  show ?thesis using intersects_defaults d by simp
qed

subsection \<open>Rounding off the grid\<close>

lemma js_lt_NaN [simp]: "js_lt x NaN = False"
  by (cases x) simp_all

lemma js_add_NaN [simp]: "js_add x NaN = NaN"
  by (cases x) simp_all

text \<open>
  Off the grid a sum can be rounded. With the anchor at \<open>left = 9 / 2 ^ 50\<close> and the
  other passage at \<open>left = 125\<close> the four inequalities of intersects hold:
  \<open>left + 100 + 12.5\<close> is \<open>112.5 + 1 / 2 ^ 46\<close> for the anchor. In displace,
  \<open>tLeft\<close> is \<open>- 12.5 + 1 / 2 ^ 47\<close> and \<open>tLeft + 100\<close> is rounded to 87.5, a tie
  that goes to the even significand; so \<open>tRight\<close> is 112.5, which is \<open>oLeft\<close>,
  \<open>xOverlap\<close> is 0, \<open>xChange\<close> stays \<open>undefined\<close> and \<open>left\<close> is set to \<open>NaN\<close>.
\<close>

lemma rounded_sums:
  "js_sub (Num (9 / 2 ^ 50)) (Num 12.5) = Num (- 12.5 + 1 / 2 ^ 47)"
  "js_add (Num (9 / 2 ^ 50)) (Num 100) = Num (100 + 1 / 2 ^ 46)"
  "js_add (Num (100 + 1 / 2 ^ 46)) (Num 12.5) = Num (112.5 + 1 / 2 ^ 46)"
  "js_add (Num (- 12.5 + 1 / 2 ^ 47)) (Num 100) = Num 87.5"
proof -
  have "round_double (9 / 2 ^ 50 - 12.5) =
        Num (of_int (rne ((9 / 2 ^ 50 - 12.5) / 2 powi (3 - 52))) * 2 powi (3 - 52))"
    by (rule round_double_binade) (simp_all add: min_exponent_def max_exponent_def)
  also have "(9 / 2 ^ 50 - 12.5) / 2 powi (3 - 52) = (of_int (- 7036874417766396) + 1 / 2 :: real)"
    by (simp add: power_int_minus)
  also have "rne (of_int (- 7036874417766396) + 1 / 2) = - 7036874417766396"
    unfolding rne_def Let_def by simp
  finally show "js_sub (Num (9 / 2 ^ 50)) (Num 12.5) = Num (- 12.5 + 1 / 2 ^ 47)"
    by (simp add: js_sub_def power_int_minus)
  have "round_double (9 / 2 ^ 50 + 100) =
        Num (of_int (rne ((9 / 2 ^ 50 + 100) / 2 powi (6 - 52))) * 2 powi (6 - 52))"
    by (rule round_double_binade) (simp_all add: min_exponent_def max_exponent_def)
  also have "(9 / 2 ^ 50 + 100) / 2 powi (6 - 52) = (of_int 7036874417766400 + 9 / 16 :: real)"
    by (simp add: power_int_minus)
  also have "rne (of_int 7036874417766400 + 9 / 16) = 7036874417766401"
    unfolding rne_def Let_def by simp
  finally show "js_add (Num (9 / 2 ^ 50)) (Num 100) = Num (100 + 1 / 2 ^ 46)"
    by (simp add: power_int_minus)
  have "round_double (100 + 1 / 2 ^ 46 + 12.5) = Num (100 + 1 / 2 ^ 46 + 12.5)"
    by (rule round_double_exact [where k = 7916483719987201 and m = "- 46"])
       (simp_all add: min_exponent_def max_exponent_def power_int_minus)
  then show "js_add (Num (100 + 1 / 2 ^ 46)) (Num 12.5) = Num (112.5 + 1 / 2 ^ 46)"
    by simp
  have "round_double (- 12.5 + 1 / 2 ^ 47 + 100) =
        Num (of_int (rne ((- 12.5 + 1 / 2 ^ 47 + 100) / 2 powi (6 - 52))) * 2 powi (6 - 52))"
    by (rule round_double_binade) (simp_all add: min_exponent_def max_exponent_def)
  also have "(- 12.5 + 1 / 2 ^ 47 + 100) / 2 powi (6 - 52) = (of_int 6157265115545600 + 1 / 2 :: real)"
    by (simp add: power_int_minus)
  also have "rne (of_int 6157265115545600 + 1 / 2) = 6157265115545600"
    unfolding rne_def Let_def by simp
  finally show "js_add (Num (- 12.5 + 1 / 2 ^ 47)) (Num 100) = Num 87.5"
    by (simp add: power_int_minus)
qed

lemma displace_rounding_NaN:
  "intersects (defaults\<lparr>attr_left := Num (9 / 2 ^ 50)\<rparr>) (defaults\<lparr>attr_left := Num 125\<rparr>) \<and>
   xOverlap (defaults\<lparr>attr_left := Num (9 / 2 ^ 50)\<rparr>) (defaults\<lparr>attr_left := Num 125\<rparr>) = Num 0 \<and>
   xChange (defaults\<lparr>attr_left := Num (9 / 2 ^ 50)\<rparr>) (defaults\<lparr>attr_left := Num 125\<rparr>) = None \<and>
   attr_left (displace (defaults\<lparr>attr_left := Num (9 / 2 ^ 50)\<rparr>) (defaults\<lparr>attr_left := Num 125\<rparr>)) = NaN"
proof -
  let ?a = "defaults\<lparr>attr_left := Num (9 / 2 ^ 50)\<rparr>"
  let ?b = "defaults\<lparr>attr_left := Num 125\<rparr>"
  have al: "attr_left ?a = Num (9 / 2 ^ 50)" and bl: "attr_left ?b = Num 125"
    and t: "attr_top ?a = Num 0" "attr_top ?b = Num 0"
    by (simp_all add: defaults_def)
  have e: "js_sub (Num 125) (Num 12.5) = Num 112.5"
    "js_add (js_add (Num 125) (Num 100)) (Num 12.5) = Num 237.5"
    "js_add (js_add (Num 112.5) (Num 100)) (js_mul (Num 12.5) (Num 2)) = Num 237.5"
    using axis_exact(1,2,3) [of 125 0] by simp_all
  have z: "js_sub (Num 0) (Num 12.5) = Num (- 12.5)"
    "js_add (js_add (Num 0) (Num 100)) (Num 12.5) = Num 112.5"
    using axis_exact(1,2) [of 0 0] by simp_all
  have f: "js_add (Num 87.5) (js_mul (Num 12.5) (Num 2)) = Num 112.5"
    unfolding js_mul_padding by (subst js_add_exact) simp_all
  have i: "intersects ?a ?b"
    unfolding intersects_def Let_def Passage_padding_def Passage_width_def Passage_height_def
      al bl t rounded_sums e z js_gt_def
    by simp
  have o: "xOverlap ?a ?b = Num 0"
    unfolding xOverlap_def padded_right_def padded_left_def
      Passage_padding_def Passage_width_def al bl rounded_sums e f
    by (simp add: js_min_def js_max_def js_sub_def round_double_0)
  have x: "xChange ?a ?b = None"
    unfolding xChange_def o by simp
  have "attr_left (displace ?a ?b) = NaN"
    unfolding displace_def x by (simp add: js_gt_def set_left_def)
  with i o x show ?thesis by simp
qed

subsection \<open>C2: which move displace applies\<close>




subsection \<open>C8: coordinates are clamped on write\<close>

text \<open>
  C8 as stated fails in three ways. A passage can hold a negative coordinate from its
  construction (the change handler is registered by \<open>initialize\<close>, after the constructor
  has set the attributes), and a write of the value that it holds fires no change event: -5
  written over -5 stays -5. A write of \<open>NaN\<close> is stored, and \<open>NaN >= 0\<close> is false. And
  displace stores \<open>NaN\<close> on an overlapping pair whose horizontal overlap is rounded to 0.
\<close>

theorem coordinates_not_clamped_counterexample:
  "attr_top (set_top (defaults\<lparr>attr_top := Num (- 5)\<rparr>) (Num (- 5))) = Num (- 5) \<and>
   position_invariant defaults \<and> \<not> position_invariant (set_left defaults NaN) \<and>
   position_invariant (defaults\<lparr>attr_left := Num (9 / 2 ^ 50)\<rparr>) \<and>
   position_invariant (defaults\<lparr>attr_left := Num 125\<rparr>) \<and>
   intersects (defaults\<lparr>attr_left := Num (9 / 2 ^ 50)\<rparr>) (defaults\<lparr>attr_left := Num 125\<rparr>) \<and>
   \<not> position_invariant
       (displace (defaults\<lparr>attr_left := Num (9 / 2 ^ 50)\<rparr>) (defaults\<lparr>attr_left := Num 125\<rparr>))"
proof -
  have 1: "attr_top (set_top (defaults\<lparr>attr_top := Num (- 5)\<rparr>) (Num (- 5))) = Num (- 5)"
    by (simp add: set_top_def)
  have 2: "position_invariant defaults" "\<not> position_invariant (set_left defaults NaN)"
    "position_invariant (defaults\<lparr>attr_left := Num (9 / 2 ^ 50)\<rparr>)"
    "position_invariant (defaults\<lparr>attr_left := Num 125\<rparr>)"
    by (simp_all add: position_invariant_def js_ge_def set_left_def defaults_def)
  have 3: "\<not> position_invariant
       (displace (defaults\<lparr>attr_left := Num (9 / 2 ^ 50)\<rparr>) (defaults\<lparr>attr_left := Num 125\<rparr>))"
    using displace_rounding_NaN by (simp add: position_invariant_def js_ge_def)
  show ?thesis using 1 2 3 displace_rounding_NaN by simp
qed

text \<open>
  C8 as amended: on a passage whose position satisfies \<open>left >= 0\<close> and \<open>top >= 0\<close>, a
  write of a value other than \<open>NaN\<close> to \<open>top\<close> or \<open>left\<close> stores the value, or 0 when it
  is negative; so the position satisfies the invariant after every such write, and after
  displace on an overlapping pair of the grid. The writes are total functions that return
  the passage: nothing is raised.
\<close>

theorem coordinates_clamped:
  assumes "position_invariant p" and "v \<noteq> NaN"
  shows "attr_top (set_top p v) = (if js_lt v (Num 0) then Num 0 else v) \<and>
         attr_left (set_left p v) = (if js_lt v (Num 0) then Num 0 else v) \<and>
         position_invariant (set_top p v) \<and> position_invariant (set_left p v) \<and>
         (on_grid a \<and> on_grid p \<and> intersects a p \<longrightarrow> position_invariant (displace a p))"
proof -
  have i: "attr_left p \<noteq> NaN" "attr_top p \<noteq> NaN" "\<not> js_lt (attr_left p) (Num 0)"
    "\<not> js_lt (attr_top p) (Num 0)"
    using assms(1) by (simp_all add: position_invariant_def js_ge_def)
  have s: "attr_top (set_top p w) = (if js_lt w (Num 0) then Num 0 else w) \<and>
         attr_left (set_left p w) = (if js_lt w (Num 0) then Num 0 else w) \<and>
         position_invariant (set_top p w) \<and> position_invariant (set_left p w)"
    if "w \<noteq> NaN" for w
    using i that by (auto simp: position_invariant_def js_ge_def set_top_def set_left_def)
  have "position_invariant (displace a p)" if g: "on_grid a" "on_grid p" "intersects a p"
  proof -
    from displace_grid [OF g] obtain u w where
      "displace a p = set_top p (Num u) \<or> displace a p = set_left p (Num w)"
      by metis
    then show ?thesis using s by auto
  qed
  then show ?thesis using s [OF assms(2)] by simp
qed

theorem coordinates_clamped_witness:
  "position_invariant defaults \<and> on_grid defaults \<and> intersects defaults defaults \<and>
   attr_top (set_top defaults (Num (- 5))) = Num 0 \<and>
   attr_left (set_left defaults (Num (- 5))) = Num 0 \<and>
   position_invariant (set_top defaults (Num (- 5))) \<and>
   position_invariant (displace defaults defaults)"
proof -
  have h: "position_invariant defaults"
    by (simp add: position_invariant_def js_ge_def defaults_def)
  from coordinates_clamped [OF h, of "Num (- 5)" defaults] show ?thesis
    using h on_grid_defaults intersects_defaults by simp
qed

text \<open>
  Outside its precondition displace stores \<open>NaN\<close> also on the grid: for a passage that
  touches the padded rectangle of the anchor (horizontal overlap exactly 0) \<open>xChange\<close>
  stays \<open>undefined\<close>, the comparison of the magnitudes is false and \<open>left\<close> is set to
  \<open>oLeft + undefined\<close>.
\<close>

lemma displace_touching_NaN:
  "\<not> intersects defaults (defaults\<lparr>attr_left := Num 125\<rparr>) \<and>
   xChange defaults (defaults\<lparr>attr_left := Num 125\<rparr>) = None \<and>
   attr_left (displace defaults (defaults\<lparr>attr_left := Num 125\<rparr>)) = NaN"
proof -
  let ?b = "defaults\<lparr>attr_left := Num 125\<rparr>"
  have i: "\<not> intersects defaults ?b"
    using intersects_grid [of defaults 0 0 ?b 125 0] by (simp add: defaults_def)
  have "attr_left defaults = Num 0" "attr_left ?b = Num 125"
    by (simp_all add: defaults_def)
  then have "xOverlap defaults ?b = Num 0"
    unfolding geom_defs using axis_exact(1,3) [of 0 0] axis_exact(1,3) [of 125 0]
      overlap_exact [of 0 125]
    by simp
  then have x: "xChange defaults ?b = None"
    by (simp add: xChange_def)
  have "attr_left (displace defaults ?b) = NaN"
    unfolding displace_def x by (simp add: js_gt_def set_left_def)
  then show ?thesis using i x by simp
qed

subsection \<open>C10: intersects is symmetric\<close>

text \<open>
  C10: intersects is symmetric: the four inequalities of \<open>a.intersects(b)\<close> are those
  of \<open>b.intersects(a)\<close>, since both passages use the same width, height and padding.
\<close>

theorem intersects_symmetric: "intersects a b = intersects b a"
  unfolding intersects_def Let_def js_gt_def by auto

section \<open>Properties of the matcher\<close>

lemma star_greedy_suffix: "s' \<in> set (star_greedy P s) \<Longrightarrow> suffix s' s"
  by (induction s) (auto simp: suffix_Cons split: if_splits)

lemma star_lazy_suffix: "s' \<in> set (star_lazy P s) \<Longrightarrow> suffix s' s"
  by (induction s) (auto simp: suffix_Cons split: if_splits)

lemma run_suffix_pair: "(s', g') \<in> set (run r (s, g)) \<Longrightarrow> suffix s' s"
proof (induction r arbitrary: s g s' g')
  case (Lit w)
  then show ?case by (auto simp: suffix_drop split: if_splits)
next
  case (One c)
  then show ?case by (auto simp: suffix_Cons split: list.splits if_splits)
next
  case (Star c)
  then show ?case by (auto dest: star_greedy_suffix)
next
  case (StarLazy c)
  then show ?case by (auto dest: star_lazy_suffix)
next
  case (Plus c)
  then show ?case
    by (auto simp: suffix_Cons dest: star_greedy_suffix split: list.splits if_splits)
next
  case (Opt r)
  then show ?case by auto
next
  case (Grp n r)
  then show ?case by auto
next
  case (Seq a b)
  from Seq.prems obtain s1 g1 where 1: "(s1, g1) \<in> set (run a (s, g))"
    and 2: "(s', g') \<in> set (run b (s1, g1))"
    by auto
  from Seq.IH(1) [OF 1] Seq.IH(2) [OF 2] show ?case
    by (rule suffix_order.trans [rotated])
next
  case (Alt a b)
  then show ?case by auto
qed

lemma run_suffix: "st' \<in> set (run r (s, g)) \<Longrightarrow> suffix (fst st') s"
  using run_suffix_pair [of "fst st'" "snd st'" r s g] by simp

lemma match_here_None: "(match_here r s = None) = (run r (s, Map.empty) = [])"
  by (simp add: match_here_def split: list.splits)

lemma match_here_first: "run r (s, Map.empty) = st # sts \<Longrightarrow> match_here r s = Some st"
  by (simp add: match_here_def)

lemma replace_all_no_match:
  "(\<And>u. suffix u s \<Longrightarrow> match_here r u = None) \<Longrightarrow> replace_all r f s = s"
proof (induction s)
  case Nil
  then show ?case by (subst replace_all.simps) simp
next
  case (Cons c s)
  have "replace_all r f s = s"
    by (rule Cons.IH) (simp add: Cons.prems suffix_Cons)
  moreover have "match_here r (c # s) = None"
    by (rule Cons.prems) simp
  ultimately show ?case by (subst replace_all.simps) simp
qed

lemma replace_all_skip:
  "(\<And>u. suffix u pre \<Longrightarrow> u \<noteq> [] \<Longrightarrow> match_here r (u @ rest) = None) \<Longrightarrow>
   replace_all r f (pre @ rest) = pre @ replace_all r f rest"
proof (induction pre)
  case Nil
  then show ?case by simp
next
  case (Cons c pre)
  have "replace_all r f (pre @ rest) = pre @ replace_all r f rest"
    by (rule Cons.IH) (simp add: Cons.prems suffix_Cons)
  moreover have "match_here r ((c # pre) @ rest) = None"
    by (rule Cons.prems) simp_all
  ultimately show ?case by (subst replace_all.simps) simp
qed

lemma replace_all_match:
  "match_here r (m @ rest) = Some (rest, g) \<Longrightarrow> m \<noteq> [] \<Longrightarrow>
   replace_all r f (m @ rest) = f m g @ replace_all r f rest"
  by (subst replace_all.simps) simp

lemma match_all_no_match:
  "(\<And>u. suffix u s \<Longrightarrow> match_here r u = None) \<Longrightarrow> match_all r s = []"
proof (induction s)
  case Nil
  then show ?case by (subst match_all.simps) simp
next
  case (Cons c s)
  have "match_all r s = []"
    by (rule Cons.IH) (simp add: Cons.prems suffix_Cons)
  moreover have "match_here r (c # s) = None"
    by (rule Cons.prems) simp
  ultimately show ?case by (subst match_all.simps) simp
qed

lemma match_all_match:
  "match_here r (m @ rest) = Some (rest, g) \<Longrightarrow> m \<noteq> [] \<Longrightarrow>
   match_all r (m @ rest) = m # match_all r rest"
  by (subst match_all.simps) simp

text \<open>The order in which the stars give back the input.\<close>

lemma tl_suffixes_Cons: "tl (suffixes (x # c)) = tl (suffixes c) @ [x # c]"
  by (cases "suffixes c") simp_all

lemma in_tl_suffixes: "(u \<in> set (tl (suffixes c))) = (suffix u c \<and> u \<noteq> [])"
proof (induction c)
  case Nil
  then show ?case by simp
next
  case (Cons x c)
  then show ?case by (auto simp: tl_suffixes_Cons suffix_Cons)
qed

lemma star_lazy_append:
  "list_all P c \<Longrightarrow>
   star_lazy P (c @ y) = map (\<lambda>u. u @ y) (rev (tl (suffixes c))) @ star_lazy P y"
  by (induction c) (simp_all add: tl_suffixes_Cons)

lemma star_greedy_append:
  "list_all P c \<Longrightarrow>
   star_greedy P (c @ y) = star_greedy P y @ map (\<lambda>u. u @ y) (tl (suffixes c))"
  by (induction c) (simp_all add: tl_suffixes_Cons)

lemma star_lazy_first: "\<exists>tl. star_lazy P y = y # tl"
  by (cases y) simp_all

lemma star_greedy_stop: "y = [] \<or> \<not> P (hd y) \<Longrightarrow> star_greedy P y = [y]"
  by (cases y) auto

lemma concat_map_Nil: "(\<And>x. x \<in> set xs \<Longrightarrow> f x = []) \<Longrightarrow> concat (map f xs) = []"
  by (induction xs) simp_all

text \<open>An expression matches nowhere in a text that lacks what its shape needs.\<close>

lemma needs_no_match: "needs w r \<Longrightarrow> \<not> sublist w s \<Longrightarrow> run r (s, g) = []"
proof (induction r arbitrary: s g)
  case (Lit v)
  have "\<not> prefix v s"
  proof
    assume "prefix v s"
    then obtain z where "s = v @ z" by (auto simp: prefix_def)
    with Lit.prems(1) have "sublist w s"
      by (auto simp: sublist_def) (metis append.assoc)
    with Lit.prems(2) show False by simp
  qed
  then show ?case by (auto simp: prefix_def) (metis append_take_drop_id)
next
  case (Seq a b)
  show ?case
  proof (cases "needs w a")
    case True
    then show ?thesis using Seq.IH(1) Seq.prems(2) by simp
  next
    case False
    with Seq.prems(1) have b: "needs w b" by simp
    have "run b st = []" if "st \<in> set (run a (s, g))" for st
    proof -
      from run_suffix [OF that] have "suffix (fst st) s" .
      then have "\<not> sublist w (fst st)"
        using Seq.prems(2) by (meson sublist_order.order.trans suffix_imp_sublist)
      from Seq.IH(2) [OF b this, of "snd st"] show ?thesis by simp
    qed
    then show ?thesis by (simp add: concat_map_Nil)
  qed
next
  case (Alt a b)
  then show ?case by simp
next
  case (Grp n r)
  then show ?case by simp
qed simp_all

lemma needs_match_here: "needs w r \<Longrightarrow> \<not> sublist w s \<Longrightarrow> match_here r s = None"
  by (simp add: match_here_None needs_no_match)

lemma needs_replace_all: "needs w r \<Longrightarrow> \<not> sublist w s \<Longrightarrow> replace_all r f s = s"
  by (rule replace_all_no_match, rule needs_match_here)
     (auto dest: suffix_imp_sublist sublist_order.order.trans)

lemma needs_match_all: "needs w r \<Longrightarrow> \<not> sublist w s \<Longrightarrow> match_all r s = []"
  by (rule match_all_no_match, rule needs_match_here)
     (auto dest: suffix_imp_sublist sublist_order.order.trans)

lemma sublist_single: "sublist [c] s = (c \<in> set s)"
  by (induction s) (auto simp: sublist_Cons_right)

text \<open>A star followed by the rest of a sequence: the first match.\<close>

lemma run_Seq_Grp_Star:
  "run (Seq (Grp n (Star c)) k) (s, g) =
   concat (map (\<lambda>s'. run k (s', g(n \<mapsto> take (length s - length s') s)))
             (star_greedy (cls_ok c) s))"
  by (simp add: comp_def)

lemma run_Seq_Grp_StarLazy:
  "run (Seq (Grp n (StarLazy c)) k) (s, g) =
   concat (map (\<lambda>s'. run k (s', g(n \<mapsto> take (length s - length s') s)))
             (star_lazy (cls_ok c) s))"
  by (simp add: comp_def)

lemma run_Seq_StarLazy:
  "run (Seq (StarLazy c) k) (s, g) =
   concat (map (\<lambda>s'. run k (s', g)) (star_lazy (cls_ok c) s))"
  by (simp add: comp_def)

lemma greedy_last_occurrence:
  assumes "list_all P d" and "P a" and "\<And>u. suffix u z \<Longrightarrow> F u = []"
  shows "\<exists>tl. concat (map F (star_greedy P (d @ a # z))) = F (a # z) @ tl"
  using assms(1)
proof (induction d)
  case Nil
  have "concat (map F (star_greedy P z)) = []"
    by (rule concat_map_Nil) (auto dest: star_greedy_suffix intro: assms(3))
  then have "concat (map F (star_greedy P ([] @ a # z))) = F (a # z) @ []"
    using assms(2) by simp
  then show ?case by blast
next
  case (Cons x d)
  then obtain tl where "concat (map F (star_greedy P (d @ a # z))) = F (a # z) @ tl"
    by auto
  then show ?case using Cons.prems by simp
qed

lemma lazy_first_occurrence:
  assumes "list_all P d" and "\<And>u. suffix u d \<Longrightarrow> u \<noteq> [] \<Longrightarrow> F (u @ z) = []"
  shows "\<exists>tl. concat (map F (star_lazy P (d @ z))) = F z @ tl"
  using assms
proof (induction d)
  case Nil
  obtain tl where "star_lazy P z = z # tl" using star_lazy_first by blast
  then show ?case by simp
next
  case (Cons x d)
  have "\<exists>tl. concat (map F (star_lazy P (d @ z))) = F z @ tl"
    by (rule Cons.IH) (use Cons.prems in \<open>simp_all add: suffix_Cons\<close>)
  moreover have "F ((x # d) @ z) = []"
    by (rule Cons.prems(2)) simp_all
  ultimately show ?case using Cons.prems(1) by simp
qed

lemma greedy_no_occurrence:
  "(\<And>u. suffix u s \<Longrightarrow> F u = []) \<Longrightarrow> concat (map F (star_greedy P s)) = []"
  by (rule concat_map_Nil) (auto dest: star_greedy_suffix)

lemma greedy_stop_first:
  "list_all P t \<Longrightarrow> y = [] \<or> \<not> P (hd y) \<Longrightarrow> \<exists>tl. star_greedy P (t @ y) = y # tl"
  by (simp add: star_greedy_append star_greedy_stop)

lemma prefix_stop: "prefix w (v @ c # y) \<Longrightarrow> c \<notin> set w \<Longrightarrow> prefix w v"
  by (auto simp: prefix_append prefix_Cons)

lemma prefix_suffix_sublist: "prefix w v \<Longrightarrow> suffix v t \<Longrightarrow> sublist w t"
  by (auto simp: prefix_def suffix_def sublist_def)

lemma no_occurrence_before_brackets:
  assumes "\<not> sublist w t" and "CHR '']'' \<notin> set w" and "w \<noteq> []"
    and "suffix u (t @ '']]'')"
  shows "\<not> prefix w u"
proof
  assume p: "prefix w u"
  from assms(4) consider "suffix u '']]''" | v where "suffix v t" "u = v @ '']]''"
    by (auto simp: suffix_append)
  then show False
  proof cases
    case 1
    then have "set u \<subseteq> {CHR '']''}" by (auto simp: suffix_def dest!: arg_cong [where f = set])
    moreover from p have "set w \<subseteq> set u" by (auto simp: prefix_def)
    ultimately show False using assms(2,3) by (cases w) auto
  next
    case 2
    with p have "prefix w (v @ CHR '']'' # '']'')" by simp
    from prefix_stop [OF this assms(2)] have "prefix w v" .
    from prefix_suffix_sublist [OF this 2(1)] assms(1) show False by simp
  qed
qed

lemma arrow_tail_first:
  assumes "CHR '']'' \<notin> set t"
  shows "\<exists>tl. run (Seq (Grp 3 (Star (NotOf '']'')))
                 (Seq (Opt (Seq (Lit '']['') (StarLazy Dot))) (Lit '']]'')))
               (t @ '']]'', g) = ([], g(3 \<mapsto> t)) # tl"
proof -
  have "list_all (cls_ok (NotOf '']'')) t"
    using assms by (auto simp: list_all_iff)
  from greedy_stop_first [OF this, of "'']]''"]
  obtain tl where "star_greedy (cls_ok (NotOf '']'')) (t @ '']]'') = '']]'' # tl"
    by auto
  then show ?thesis
    unfolding run_Seq_Grp_Star by simp
qed

lemma link_re_first:
  assumes "list_all (cls_ok Dot) c" and "CHR '']'' \<notin> set c"
  shows "\<exists>tl. run link_re (''[['' @ c @ '']]'' @ rest, g) = (rest, g) # tl"
proof -
  have "\<exists>tl. concat (map (\<lambda>s'. run (Lit '']]'') (s', g)) (star_lazy (cls_ok Dot) (c @ '']]'' @ rest)))
         = run (Lit '']]'') ('']]'' @ rest, g) @ tl"
  proof (rule lazy_first_occurrence [OF assms(1)])
    fix u assume "suffix u c" "u \<noteq> []"
    then obtain x u' where "u = x # u'" "x \<in> set c"
      by (cases u) (auto simp: suffix_def)
    with assms(2) show "run (Lit '']]'') (u @ '']]'' @ rest, g) = []"
      by auto
  qed
  then show ?thesis
    unfolding link_re_def by (simp add: comp_def)
qed

section \<open>Properties of excerpt\<close>

lemma length_escape_char: "1 \<le> length (escape_char c)"
  by (simp add: escape_char_def)

lemma length_escape: "length s \<le> length (escape s)"
proof (induction s)
  case Nil
  then show ?case by (simp add: escape_def)
next
  case (Cons c s)
  then show ?case using length_escape_char [of c] by (simp add: escape_def)
qed

lemma escape_plain: "list_all (\<lambda>c. \<not> html_special c) s \<Longrightarrow> escape s = s"
  by (induction s) (auto simp: escape_def escape_char_def html_special_def)

lemma escape_replicate: "escape (replicate n c) = concat (replicate n (escape_char c))"
  by (simp add: escape_def)

lemma length_concat_replicate: "length (concat (replicate n w)) = n * length w"
  by (induction n) auto

text \<open>
  C7 as amended: excerpt escapes the text first and truncates afterwards. A text of 150
  characters gives exactly the first 99 characters of the escaped text followed by the
  ellipsis marker \<open>&hellip;\<close>; a text whose escaped form has at most 100 characters
  (such as a text of 50 characters none of which is replaced by \<open>_.escape\<close>) gives
  the escaped text unchanged.
\<close>

theorem excerpt_escaped_then_truncated:
  "(length (attr_text p) = 150 \<longrightarrow>
      excerpt p = take 99 (escape (attr_text p)) @ ''&hellip;'' \<and>
      length (take 99 (escape (attr_text p))) = 99) \<and>
   (length (escape (attr_text p)) \<le> 100 \<longrightarrow> excerpt p = escape (attr_text p)) \<and>
   (length (attr_text p) = 50 \<and> list_all (\<lambda>c. \<not> html_special c) (attr_text p) \<longrightarrow>
      excerpt p = escape (attr_text p))"
proof -
  have a: "excerpt p = take 99 (escape (attr_text p)) @ ''&hellip;'' \<and>
      length (take 99 (escape (attr_text p))) = 99" if "length (attr_text p) = 150"
    using that length_escape [of "attr_text p"] by (simp add: excerpt_def Let_def)
  have b: "excerpt p = escape (attr_text p)" if "length (escape (attr_text p)) \<le> 100"
    using that by (simp add: excerpt_def Let_def)
  have c: "excerpt p = escape (attr_text p)"
    if "length (attr_text p) = 50" "list_all (\<lambda>c. \<not> html_special c) (attr_text p)"
    using that escape_plain [of "attr_text p"] by (simp add: excerpt_def Let_def)
  show ?thesis using a b c by blast
qed

theorem excerpt_escaped_then_truncated_witness:
  "length (attr_text (defaults\<lparr>attr_text := replicate 150 (CHR ''<'')\<rparr>)) = 150 \<and>
   excerpt (defaults\<lparr>attr_text := replicate 150 (CHR ''<'')\<rparr>) =
     take 99 (escape (replicate 150 (CHR ''<''))) @ ''&hellip;'' \<and>
   length (escape (attr_text (defaults\<lparr>attr_text := replicate 50 (CHR ''a'')\<rparr>))) \<le> 100 \<and>
   length (attr_text (defaults\<lparr>attr_text := replicate 50 (CHR ''a'')\<rparr>)) = 50 \<and>
   list_all (\<lambda>c. \<not> html_special c) (attr_text (defaults\<lparr>attr_text := replicate 50 (CHR ''a'')\<rparr>)) \<and>
   excerpt (defaults\<lparr>attr_text := replicate 50 (CHR ''a'')\<rparr>) = escape (replicate 50 (CHR ''a''))"
proof -
  have e: "escape (replicate 50 (CHR ''a'')) = replicate 50 (CHR ''a'')"
    by (rule escape_plain) (simp add: list_all_iff html_special_def)
  have h: "list_all (\<lambda>c. \<not> html_special c) (replicate 50 (CHR ''a''))"
    by (simp add: list_all_iff html_special_def)
  show ?thesis
    using excerpt_escaped_then_truncated [of "defaults\<lparr>attr_text := replicate 150 (CHR ''<'')\<rparr>"]
      excerpt_escaped_then_truncated [of "defaults\<lparr>attr_text := replicate 50 (CHR ''a'')\<rparr>"]
      e h
    by simp
qed

text \<open>
  C7 as stated fails on a text of 50 characters: 50 ampersands escape to 250 characters,
  and excerpt returns 99 of them and the ellipsis marker, not the escaped text.
\<close>

theorem excerpt_50_ampersands_counterexample:
  "length (attr_text (defaults\<lparr>attr_text := replicate 50 (CHR ''&'')\<rparr>)) = 50 \<and>
   length (escape (replicate 50 (CHR ''&''))) = 250 \<and>
   excerpt (defaults\<lparr>attr_text := replicate 50 (CHR ''&'')\<rparr>) =
     take 99 (escape (replicate 50 (CHR ''&''))) @ ''&hellip;'' \<and>
   excerpt (defaults\<lparr>attr_text := replicate 50 (CHR ''&'')\<rparr>) \<noteq> escape (replicate 50 (CHR ''&''))"
proof -
  have l: "length (escape (replicate 50 (CHR ''&''))) = 250"
    by (simp add: escape_replicate length_concat_replicate escape_char_def)
  have x: "excerpt (defaults\<lparr>attr_text := replicate 50 (CHR ''&'')\<rparr>) =
     take 99 (escape (replicate 50 (CHR ''&''))) @ ''&hellip;''"
    using l by (simp add: excerpt_def Let_def)
  have "length (excerpt (defaults\<lparr>attr_text := replicate 50 (CHR ''&'')\<rparr>)) = 107"
    using l by (simp add: x)
  then have "excerpt (defaults\<lparr>attr_text := replicate 50 (CHR ''&'')\<rparr>) \<noteq> escape (replicate 50 (CHR ''&''))"
    using l by auto
  then show ?thesis using l x by simp
qed

section \<open>Properties of validate\<close>

subsection \<open>The operators of the language and the words of the specification\<close>

lemma loose_eq_same_id: "loose_eq tn x y = same_id tn x y"
  by (cases x; cases y) (auto simp: same_id_def absent_def num_eq_def)

lemma same_id_sym: "same_id tn x y = same_id tn y x"
  by (cases x; cases y) (auto simp: same_id_def absent_def)

lemma find_filter: "find P xs = (case filter P xs of [] \<Rightarrow> None | x # _ \<Rightarrow> Some x)"
  by (induction xs) simp_all

lemma find_list_ex: "(find P xs = None) = (\<not> list_ex P xs)"
  by (auto simp: find_None_iff list_ex_iff)

lemma of_char_lower_char:
  "(of_char (lower_char c) :: nat) = (if capital c then of_char c + 32 else of_char c)"
proof (cases "capital c")
  case True
  then have "(of_char c :: nat) + 32 < 256"
    unfolding capital_def Let_def by linarith
  then show ?thesis using True by (simp add: lower_char_def)
next
  case False
  then show ?thesis by (simp add: lower_char_def)
qed

lemma capital_small: "capital c \<Longrightarrow> (of_char c :: nat) + 32 = of_char d \<Longrightarrow> small_letter d"
  unfolding capital_def small_letter_def Let_def by linarith

lemma small_capital: "small_letter d \<Longrightarrow> (of_char c :: nat) + 32 = of_char d \<Longrightarrow> capital c"
  unfolding capital_def small_letter_def Let_def by linarith

lemma capital_not_small: "capital c \<Longrightarrow> \<not> small_letter c"
  unfolding capital_def small_letter_def Let_def by linarith

text \<open>\<open>toLowerCase\<close> gives the same string for two names exactly when they are the same
  up to case.\<close>

lemma lower_char_same_letter: "(lower_char c = lower_char d) = same_letter c d"
proof -
  have e: "(lower_char c = lower_char d) = ((of_char (lower_char c) :: nat) = of_char (lower_char d))"
    by simp
  have q: "(c = d) = ((of_char c :: nat) = of_char d)"
    by simp
  show ?thesis
  proof (cases "capital c"; cases "capital d")
    assume "capital c" "capital d"
    then show ?thesis
      unfolding e of_char_lower_char same_letter_def capital_of_def q
      using capital_not_small by auto
  next
    assume "capital c" "\<not> capital d"
    then show ?thesis
      unfolding e of_char_lower_char same_letter_def capital_of_def q
      using capital_not_small capital_small [of c d] by auto
  next
    assume "\<not> capital c" "capital d"
    then show ?thesis
      unfolding e of_char_lower_char same_letter_def capital_of_def q
      using capital_not_small capital_small [of d c] by auto
  next
    assume "\<not> capital c" "\<not> capital d"
    then show ?thesis
      unfolding e of_char_lower_char same_letter_def capital_of_def q
      using small_capital [of d c] small_capital [of c d] by auto
  qed
qed

lemma map_eq_list_all2: "(map f xs = map f ys) = list_all2 (\<lambda>x y. f x = f y) xs ys"
proof (induction xs arbitrary: ys)
  case Nil
  then show ?case by auto
next
  case (Cons x xs)
  then show ?case by (cases ys) auto
qed

lemma toLowerCase_same_name: "(toLowerCase a = toLowerCase b) = same_name a b"
  unfolding toLowerCase_def same_name_def map_eq_list_all2 lower_char_same_letter ..

lemma same_name_sym: "same_name a b = same_name b a"
  unfolding toLowerCase_same_name [symmetric] by auto

lemma same_name_examples:
  "same_name ''START'' ''Start''"
  "same_name (CHR 0xC9 # ''COLE'') (CHR 0xE9 # ''cole'')"
  "\<not> same_name ''Start'' ''Stark''"
  "\<not> same_name [CHR 0xD7] [CHR 0xF7]"
  "\<not> same_name ''Start'' ''Starts''"
  by code_simp+

lemma toLowerCase_examples:
  "toLowerCase ''START'' = ''start''"
  "toLowerCase (CHR 0xC9 # ''COLE'') = CHR 0xE9 # ''cole''"
  "toLowerCase [CHR 0xD7, CHR 0xDF, CHR ''1'', CHR ''_''] = [CHR 0xD7, CHR 0xDF, CHR ''1'', CHR ''_'']"
  by code_simp+

text \<open>\<open>fetchStory\<close> finds the story of the passage, and \<open>isDupe\<close> holds of the passages
  with another id and the same name up to case.\<close>

lemma fetchStory_filter:
  "fetchStory tn stories this =
     (case filter (is_story_of tn this) stories of [] \<Rightarrow> None | s # _ \<Rightarrow> Some s)"
proof -
  have "loose_eq tn (story_id s) (attr_story this) \<or>
        loose_eq tn (JStr (story_cid s)) (attr_story this) \<longleftrightarrow> is_story_of tn this s" for s
    unfolding is_story_of_def loose_eq_same_id
    using same_id_sym [of tn "attr_story this"] by simp
  then show ?thesis
    unfolding fetchStory_def find_filter by simp
qed

lemma find_isDupe:
  "(find (isDupe tn aid name) qs = None) =
   (\<not> list_ex (\<lambda>q. \<not> same_id tn (attr_id q) aid \<and> same_name (attr_name q) name) qs)"
proof -
  have "isDupe tn aid name q = (\<not> same_id tn (attr_id q) aid \<and> same_name (attr_name q) name)" for q
    unfolding isDupe_def loose_eq_same_id toLowerCase_same_name
    using same_id_sym [of tn aid "attr_id q"] same_name_sym [of name "attr_name q"] by simp
  then have "isDupe tn aid name =
      (\<lambda>q. \<not> same_id tn (attr_id q) aid \<and> same_name (attr_name q) name)"
    by (intro ext)
  then show ?thesis by (simp add: find_list_ex)
qed

subsection \<open>C9: what validate returns\<close>

text \<open>
  C9: validate reports a failure by returning a message: it returns a message exactly
  when validation is not switched off and the name is empty or missing, or (the duplicate
  check not being switched off) another passage of the same story, another by its id, has
  the same name up to case. With \<open>noValidation\<close> it returns nothing; with
  \<open>noDupeValidation\<close> and a name it returns nothing. The one throw of the function is
  not a validation failure: the TypeError when the duplicate check runs and no story of
  the collection is the passage's.
\<close>

theorem validate_returns_message:
  "((\<exists>m. validate tn stories this attrs opts = Inr (Some m)) =
      (\<not> noValidation opts \<and>
       (name_missing attrs \<or>
        (\<not> noDupeValidation opts \<and> name_duplicated tn stories this attrs)))) \<and>
   (noValidation opts \<longrightarrow> validate tn stories this attrs opts = Inr None) \<and>
   (noDupeValidation opts \<and> \<not> name_missing attrs \<longrightarrow>
      validate tn stories this attrs opts = Inr None) \<and>
   ((validate tn stories this attrs opts = Inl TypeError) =
      (\<not> noValidation opts \<and> \<not> name_missing attrs \<and> \<not> noDupeValidation opts \<and>
       \<not> has_story tn stories this))"
proof (cases "attrs_name attrs")
  case None
  then show ?thesis by (simp add: validate_def name_missing_def)
next
  case (Some name)
  note n = this
  show ?thesis
  proof (cases "filter (is_story_of tn this) stories")
    case Nil
    then have h: "\<not> has_story tn stories this"
      unfolding has_story_def list_ex_iff by (simp add: filter_empty_conv)
    show ?thesis using n Nil h
      by (simp add: validate_def name_missing_def name_duplicated_def fetchStory_filter)
  next
    case (Cons s rest)
    then have "s \<in> set (filter (is_story_of tn this) stories)" by simp
    then have h: "has_story tn stories this"
      unfolding has_story_def list_ex_iff by auto
    show ?thesis
    proof (cases "find (isDupe tn (attrs_id attrs) name) (fetchPassages s)")
      case None
      then show ?thesis
        using n Cons h None [unfolded find_isDupe]
        by (simp add: validate_def name_missing_def name_duplicated_def fetchStory_filter
            fetchPassages_def)
    next
      case (Some d)
      then have "list_ex (\<lambda>q. \<not> same_id tn (attr_id q) (attrs_id attrs) \<and>
                   same_name (attr_name q) name) (fetchPassages s)"
        using find_isDupe [of tn "attrs_id attrs" name "fetchPassages s"] by simp
      then show ?thesis
        using n Cons h Some
        by (simp add: validate_def name_missing_def name_duplicated_def fetchStory_filter
            fetchPassages_def)
    qed
  qed
qed

theorem validate_returns_message_witness:
  "\<forall>tn.
   validate tn
     [\<lparr>story_id = JStr ''s1'', story_cid = ''c1'',
       story_passages = [defaults\<lparr>attr_id := JStr ''p1'', attr_name := ''Start''\<rparr>]\<rparr>]
     (defaults\<lparr>attr_story := JStr ''s1''\<rparr>)
     \<lparr>attrs_id = Undefined, attrs_name = Some ''START''\<rparr>
     \<lparr>noValidation = False, noDupeValidation = False\<rparr> = Inr (Some (Name_taken ''START'')) \<and>
   validate tn [] defaults \<lparr>attrs_id = Undefined, attrs_name = None\<rparr>
     \<lparr>noValidation = True, noDupeValidation = False\<rparr> = Inr None \<and>
   validate tn [] defaults \<lparr>attrs_id = Undefined, attrs_name = Some ''Start''\<rparr>
     \<lparr>noValidation = False, noDupeValidation = True\<rparr> = Inr None"
proof
  fix tn
  let ?stories = "[\<lparr>story_id = JStr ''s1'', story_cid = ''c1'',
       story_passages = [defaults\<lparr>attr_id := JStr ''p1'', attr_name := ''Start''\<rparr>]\<rparr>]"
  let ?p = "defaults\<lparr>attr_story := JStr ''s1''\<rparr>"
  let ?attrs = "\<lparr>attrs_id = Undefined, attrs_name = Some ''START''\<rparr>"
  let ?opts = "\<lparr>noValidation = False, noDupeValidation = False\<rparr>"
  have d: "name_duplicated tn ?stories ?p ?attrs"
    using same_name_examples(1) [unfolded same_name_sym [of "''START''"]]
    by (simp add: name_duplicated_def is_story_of_def same_id_def absent_def)
  have "\<exists>m. validate tn ?stories ?p ?attrs ?opts = Inr (Some m)"
    using validate_returns_message [of tn ?stories ?p ?attrs ?opts] d by simp
  then have 1: "validate tn ?stories ?p ?attrs ?opts = Inr (Some (Name_taken ''START''))"
    by (auto simp: validate_def split: option.splits if_splits)
  have 2: "validate tn [] defaults \<lparr>attrs_id = Undefined, attrs_name = None\<rparr>
     \<lparr>noValidation = True, noDupeValidation = False\<rparr> = Inr None"
    using validate_returns_message [of tn "[]" defaults
        "\<lparr>attrs_id = Undefined, attrs_name = None\<rparr>"
        "\<lparr>noValidation = True, noDupeValidation = False\<rparr>"] by simp
  have 3: "validate tn [] defaults \<lparr>attrs_id = Undefined, attrs_name = Some ''Start''\<rparr>
     \<lparr>noValidation = False, noDupeValidation = True\<rparr> = Inr None"
    using validate_returns_message [of tn "[]" defaults
        "\<lparr>attrs_id = Undefined, attrs_name = Some ''Start''\<rparr>"
        "\<lparr>noValidation = False, noDupeValidation = True\<rparr>"] by (simp add: name_missing_def)
  show "validate tn ?stories ?p ?attrs ?opts = Inr (Some (Name_taken ''START'')) \<and>
   validate tn [] defaults \<lparr>attrs_id = Undefined, attrs_name = None\<rparr>
     \<lparr>noValidation = True, noDupeValidation = False\<rparr> = Inr None \<and>
   validate tn [] defaults \<lparr>attrs_id = Undefined, attrs_name = Some ''Start''\<rparr>
     \<lparr>noValidation = False, noDupeValidation = True\<rparr> = Inr None"
    using 1 2 3 by simp
qed

text \<open>
  The equality of the ids is the one of the language. A passage that was never saved has
  no id: validated against another unsaved passage with its name, it is not told from that
  passage, and validate returns nothing. A passage with the default story (-1) and a name:
  the duplicate check calls \<open>fetchPassages\<close> on \<open>undefined\<close>. The story is found by an
  id that is a number where the attribute is a string, when the string converts to the
  number.
\<close>

lemma validate_unsaved_twin:
  "validate tn
     [\<lparr>story_id = JStr ''s1'', story_cid = ''c1'',
       story_passages = [defaults\<lparr>attr_name := ''Start''\<rparr>]\<rparr>]
     (defaults\<lparr>attr_story := JStr ''c1''\<rparr>)
     \<lparr>attrs_id = Undefined, attrs_name = Some ''Start''\<rparr>
     \<lparr>noValidation = False, noDupeValidation = False\<rparr> = Inr None"
  by (simp add: validate_def fetchStory_def fetchPassages_def isDupe_def defaults_def)

lemma validate_without_story_throws:
  "validate tn [] defaults \<lparr>attrs_id = Undefined, attrs_name = Some ''Start''\<rparr>
     \<lparr>noValidation = False, noDupeValidation = False\<rparr> = Inl TypeError"
  by (simp add: validate_def fetchStory_def)

lemma fetchStory_number_and_string:
  "tn ''7'' = Num 7 \<Longrightarrow>
   fetchStory tn [\<lparr>story_id = JNum (Num 7), story_cid = ''c1'', story_passages = []\<rparr>]
     (defaults\<lparr>attr_story := JStr ''7''\<rparr>) =
   Some \<lparr>story_id = JNum (Num 7), story_cid = ''c1'', story_passages = []\<rparr>"
  by (simp add: fetchStory_def num_eq_def)

section \<open>Properties of links\<close>

subsection \<open>C3: the links of a text\<close>

text \<open>
  The loop of links keeps, of the links of the matches of \<open>link_re\<close> taken from left
  to right, the first occurrence of every link that is not empty and is not the name of a
  property of \<open>Object.prototype\<close>.
\<close>

lemma first_seen_set: "set a = set b \<Longrightarrow> first_seen a xs = first_seen b xs"
proof (induction xs arbitrary: a b)
  case Nil
  then show ?case by simp
next
  case (Cons x xs)
  from Cons.prems have "set (x # a) = set (x # b)" by simp
  from Cons.IH [OF this] Cons.IH [OF Cons.prems] Cons.prems show ?case by simp
qed

lemma links_loop_first_seen:
  "dom found = set result \<Longrightarrow>
   links_loop ms found result =
     result @ first_seen result
       (filter (\<lambda>l. l \<noteq> [] \<and> l \<notin> set Object_prototype) (map link_of ms))"
proof (induction ms arbitrary: found result)
  case Nil
  then show ?case by simp
next
  case (Cons m ms)
  let ?l = "link_of m"
  let ?X = "filter (\<lambda>l. l \<noteq> [] \<and> l \<notin> set Object_prototype) (map link_of ms)"
  have d: "(found ?l = None) = (?l \<notin> set result)"
    using Cons.prems domIff [of ?l found] by simp
  show ?case
  proof (cases "?l \<noteq> [] \<and> is_undefined found ?l")
    case True
    then have ok: "?l \<noteq> []" "?l \<notin> set Object_prototype" "?l \<notin> set result"
      using d by (simp_all add: is_undefined_def)
    have "dom (found(?l \<mapsto> True)) = set (result @ [?l])"
      using Cons.prems by simp
    from Cons.IH [OF this]
    have 1: "links_loop ms (found(?l \<mapsto> True)) (result @ [?l]) =
        (result @ [?l]) @ first_seen (result @ [?l]) ?X" .
    have 2: "first_seen (result @ [?l]) ?X = first_seen (?l # result) ?X"
      by (rule first_seen_set) simp
    have 3: "links_loop (m # ms) found result =
        links_loop ms (found(?l \<mapsto> True)) (result @ [?l])"
      using True by (simp add: Let_def)
    show ?thesis
      unfolding 3 1 2 using ok by simp
  next
    case False
    have 3: "links_loop (m # ms) found result = links_loop ms found result"
      using False by (auto simp: Let_def)
    from False d have "?l = [] \<or> ?l \<in> set Object_prototype \<or> ?l \<in> set result"
      by (auto simp: is_undefined_def)
    then show ?thesis
      unfolding 3 Cons.IH [OF Cons.prems] by auto
  qed
qed

lemma links_first_seen:
  "links p False =
     first_seen [] (filter (\<lambda>l. l \<noteq> [] \<and> l \<notin> set Object_prototype)
                      (map link_of (match_all link_re (attr_text p))))"
  by (simp add: links_def links_loop_first_seen)

lemma first_seen_distinct: "distinct (first_seen seen xs) \<and> set (first_seen seen xs) = set xs - set seen"
  by (induction xs arbitrary: seen) auto

text \<open>
  C3 fails on a link whose target is the name of a property that every object inherits:
  the text \<open>[[constructor]]\<close> has one match, its link is \<open>constructor\<close>, and links
  returns no link, because \<open>found['constructor']\<close> is not \<open>undefined\<close>.
\<close>

theorem links_constructor_dropped:
  "match_all link_re ''[[constructor]]'' = [''[[constructor]]''] \<and>
   link_of ''[[constructor]]'' = ''constructor'' \<and>
   links (defaults\<lparr>attr_text := ''[[constructor]]''\<rparr>) False = []"
  by code_simp

text \<open>A bare link that occurs twice is returned once.\<close>

lemma links_Foo_twice:
  "links (defaults\<lparr>attr_text := ''[[Foo]] and [[Foo]]''\<rparr>) False = [''Foo'']"
  by code_simp

subsection \<open>C5: internal links only\<close>

text \<open>The class \<open>\w\<close> holds the word characters.\<close>

lemma Word_codes:
  "map (of_char :: char \<Rightarrow> nat)
     ''abcdefghijklmnopqrstuvwxyzABCDEFGHIJKLMNOPQRSTUVWXYZ0123456789_'' =
   [97..<123] @ [65..<91] @ [48..<58] @ [95]"
  by simp

lemma cls_ok_Word: "cls_ok Word c = word_char c"
proof -
  let ?W = "''abcdefghijklmnopqrstuvwxyzABCDEFGHIJKLMNOPQRSTUVWXYZ0123456789_''"
  have "(c \<in> set ?W) = ((of_char c :: nat) \<in> of_char ` set ?W)"
    by (simp only: inj_image_mem_iff [OF inj_of_char])
  also have "(of_char ` set ?W :: nat set) = set (map of_char ?W)"
    by (simp only: set_map)
  also have "((of_char c :: nat) \<in> set (map of_char ?W)) = word_char c"
    unfolding Word_codes word_char_def Let_def set_append set_upt by auto
  finally show ?thesis by (simp only: cls_ok.simps)
qed

text \<open>After \<open>\w+\<close> only the longest run of word characters can be followed by a
  colon: the matcher gives back one character after the other, to no avail.\<close>

lemma star_greedy_concat:
  assumes "\<And>c cs. P c \<Longrightarrow> F (c # cs) = []"
  shows "concat (map F (star_greedy P xs)) = F (dropWhile P xs)"
  using assms by (induction xs) simp_all

lemma run_uri_tail_word:
  "word_char c \<Longrightarrow>
   run (Seq (Lit ''://'') (Seq (Opt (Lit ''/'')) (One Word))) (c # cs, g) = []"
  by (auto simp: word_char_def)

lemma run_One_Word: "(run (One Word) (s, g) \<noteq> []) = begins_word s"
  by (cases s) (simp_all add: cls_ok_Word del: cls_ok.simps)

lemma run_Lit_uri:
  "run (Lit ''://'') (s, g) = (if take 3 s = ''://'' then [(drop 3 s, g)] else [])"
  by (simp add: eval_nat_numeral)

lemma run_Opt_slash:
  "run (Opt (Lit ''/'')) (t, g) =
     (if take 1 t = ''/'' then [(drop 1 t, g), (t, g)] else [(t, g)])"
  by (cases t) auto

lemma run_uri_tail:
  "(run (Seq (Lit ''://'') (Seq (Opt (Lit ''/'')) (One Word))) (s, g) \<noteq> []) =
   (take 3 s = ''://'' \<and>
    (begins_word (drop 3 s) \<or> (take 1 (drop 3 s) = ''/'' \<and> begins_word (drop 4 s))))"
proof -
  have t: "(run (Seq (Opt (Lit ''/'')) (One Word)) (t, g) \<noteq> []) =
        (begins_word t \<or> (take 1 t = ''/'' \<and> begins_word (drop 1 t)))" for t
    unfolding run.simps(8) run_Opt_slash using run_One_Word by auto
  have d: "drop 1 (drop 3 s) = drop 4 s" by simp
  show ?thesis
    unfolding run.simps(8) [of "Lit ''://''"] run_Lit_uri
    using t [of "drop 3 s"] unfolding d by (cases "take 3 s = ''://''") simp_all
qed

text \<open>The test of the filter is the one of the specification.\<close>

lemma test_uri_re: "test_anchored uri_re l = absolute_uri l"
proof (cases l)
  case Nil
  then show ?thesis
    by (simp add: test_anchored_def match_here_None uri_re_def absolute_uri_def)
next
  case (Cons x xs)
  show ?thesis
  proof (cases "word_char x")
    case False
    then show ?thesis
      using Cons
      by (simp add: test_anchored_def match_here_None uri_re_def absolute_uri_def cls_ok_Word
          del: cls_ok.simps)
  next
    case True
    let ?R = "Seq (Lit ''://'') (Seq (Opt (Lit ''/'')) (One Word))"
    have "run uri_re (l, Map.empty) =
          concat (map (\<lambda>s'. run ?R (s', Map.empty)) (star_greedy word_char xs))"
      using True Cons
      by (simp add: uri_re_def cls_ok_Word [abs_def] comp_def del: cls_ok.simps)
    also have "\<dots> = run ?R (dropWhile word_char xs, Map.empty)"
      by (rule star_greedy_concat) (rule run_uri_tail_word)
    finally have "test_anchored uri_re l =
        (run ?R (dropWhile word_char xs, Map.empty) \<noteq> [])"
      by (simp add: test_anchored_def match_here_None)
    then show ?thesis
      unfolding run_uri_tail using True Cons by (simp add: absolute_uri_def Let_def)
  qed
qed

text \<open>
  C5: with \<open>internalOnly\<close> links drops exactly the links that look like an absolute
  URI, and without it keeps them: the text \<open>[[http://x.com]]\<close> gives no link with
  \<open>internalOnly\<close> and the link \<open>http://x.com\<close> without. Of the links \<open>Foo\<close>,
  \<open>http://x.com\<close> and \<open>mailto:x\<close> the first and the last are kept.
\<close>

theorem links_internalOnly:
  "links p True = filter (\<lambda>link. \<not> absolute_uri link) (links p False) \<and>
   links (defaults\<lparr>attr_text := ''[[http://x.com]]''\<rparr>) True = [] \<and>
   links (defaults\<lparr>attr_text := ''[[http://x.com]]''\<rparr>) False = [''http://x.com''] \<and>
   links (defaults\<lparr>attr_text := ''[[Foo]] [[http://x.com]] [[mailto:x]]''\<rparr>) False =
     [''Foo'', ''http://x.com'', ''mailto:x''] \<and>
   links (defaults\<lparr>attr_text := ''[[Foo]] [[http://x.com]] [[mailto:x]]''\<rparr>) True =
     [''Foo'', ''mailto:x'']"
proof -
  have 1: "links q True = filter (\<lambda>link. \<not> absolute_uri link) (links q False)" for q
    by (simp add: links_def test_uri_re)
  have 2: "absolute_uri ''http://x.com''" "\<not> absolute_uri ''Foo''" "\<not> absolute_uri ''mailto:x''"
    by code_simp+
  have 3: "links (defaults\<lparr>attr_text := ''[[http://x.com]]''\<rparr>) False = [''http://x.com'']"
    by code_simp
  have 4: "links (defaults\<lparr>attr_text := ''[[Foo]] [[http://x.com]] [[mailto:x]]''\<rparr>) False =
     [''Foo'', ''http://x.com'', ''mailto:x'']"
    by code_simp
  show ?thesis
    unfolding 1 [of "defaults\<lparr>attr_text := ''[[http://x.com]]''\<rparr>"]
      1 [of "defaults\<lparr>attr_text := ''[[Foo]] [[http://x.com]] [[mailto:x]]''\<rparr>"] 3 4
    using 1 [of p] 2 by simp
qed

text \<open>The pattern asks for a word character behind the slashes: a link that ends with
  them, or goes on with another character, is kept.\<close>

lemma absolute_uri_examples:
  "absolute_uri ''file:///etc''" "absolute_uri ''HTTP://X''" "absolute_uri ''a_1://b c''"
  "\<not> absolute_uri ''http://''" "\<not> absolute_uri ''http:////x''" "\<not> absolute_uri ''://x''"
  "\<not> absolute_uri ''my-app://x''" "\<not> absolute_uri '' http://x.com''"
  by code_simp+

subsection \<open>C4: arrow links\<close>

text \<open>The first match of \<open>arrow_re\<close> on a match of \<open>link_re\<close> that holds an arrow: the
  greedy first capture ends at the rightmost \<open>->\<close>, the lazy second capture at the
  leftmost \<open><-\<close>.\<close>

lemma run_Lit_Nil: "\<not> prefix w s \<Longrightarrow> run (Lit w) (s, g) = []"
  by (auto simp: prefix_def) (metis append_take_drop_id)

lemma arrow_re_right:
  assumes "CHR '']'' \<notin> set d" and "CHR '']'' \<notin> set t" and "\<not> sublist ''->'' t"
  shows "\<exists>tl. run arrow_re (''[['' @ d @ ''->'' @ t @ '']]'', g) = ([], g(1 \<mapsto> d, 3 \<mapsto> t)) # tl"
proof -
  define A where "A = Seq (Grp 1 (Star (NotOf '']''))) (Lit ''->'')"
  define B where "B = Seq (Grp 2 (StarLazy (NotOf '']''))) (Lit ''<-'')"
  define K where "K = Seq (Grp 3 (Star (NotOf '']'')))
                 (Seq (Opt (Seq (Lit '']['') (StarLazy Dot))) (Lit '']]''))"
  let ?s1 = "d @ ''->'' @ t @ '']]''"
  let ?F = "\<lambda>s'. run (Lit ''->'') (s', g(1 \<mapsto> take (length ?s1 - length s') ?s1))"
  have "\<exists>tl. concat (map ?F (star_greedy (cls_ok (NotOf '']'')) (d @ CHR ''-'' # (CHR ''>'' # t @ '']]''))))
          = ?F (CHR ''-'' # (CHR ''>'' # t @ '']]'')) @ tl"
  proof (rule greedy_last_occurrence)
    show "list_all (cls_ok (NotOf '']'')) d" using assms(1) by (auto simp: list_all_iff)
    show "cls_ok (NotOf '']'') CHR ''-''" by simp
    fix u assume "suffix u (CHR ''>'' # t @ '']]'')"
    then consider "u = CHR ''>'' # t @ '']]''" | "suffix u (t @ '']]'')"
      by (auto simp: suffix_Cons)
    then have "\<not> prefix ''->'' u"
    proof cases
      case 1
      then show ?thesis by simp
    next
      case 2
      show ?thesis
        by (rule no_occurrence_before_brackets [OF assms(3) _ _ 2]) simp_all
    qed
    then show "?F u = []" by (rule run_Lit_Nil)
  qed
  then obtain tlA where "run A (?s1, g) = (t @ '']]'', g(1 \<mapsto> d)) # tlA"
    unfolding A_def run_Seq_Grp_Star by auto
  moreover obtain tlK where
    "run K (t @ '']]'', g(1 \<mapsto> d)) = ([], g(1 \<mapsto> d, 3 \<mapsto> t)) # tlK"
    unfolding K_def using arrow_tail_first [OF assms(2)] by blast
  moreover have "run arrow_re (''[['' @ ?s1, g) =
      concat (map (run K) (run A (?s1, g))) @ concat (map (run K) (run B (?s1, g)))"
    by (simp add: arrow_re_def A_def B_def K_def)
  ultimately show ?thesis by simp
qed

lemma arrow_re_left:
  assumes "CHR '']'' \<notin> set t" and "CHR '']'' \<notin> set d"
    and "\<not> sublist ''->'' (t @ ''<-'' @ d)" and "\<not> sublist ''<-'' t"
  shows "\<exists>tl. run arrow_re (''[['' @ t @ ''<-'' @ d @ '']]'', g) = ([], g(2 \<mapsto> t, 3 \<mapsto> d)) # tl"
proof -
  define A where "A = Seq (Grp 1 (Star (NotOf '']''))) (Lit ''->'')"
  define B where "B = Seq (Grp 2 (StarLazy (NotOf '']''))) (Lit ''<-'')"
  define K where "K = Seq (Grp 3 (Star (NotOf '']'')))
                 (Seq (Opt (Seq (Lit '']['') (StarLazy Dot))) (Lit '']]''))"
  let ?s1 = "t @ ''<-'' @ d @ '']]''"
  have "concat (map (\<lambda>s'. run (Lit ''->'') (s', g(1 \<mapsto> take (length ?s1 - length s') ?s1)))
          (star_greedy (cls_ok (NotOf '']'')) ?s1)) = []"
  proof (rule greedy_no_occurrence)
    fix u assume "suffix u ?s1"
    then have "suffix u ((t @ ''<-'' @ d) @ '']]'')" by simp
    then have "\<not> prefix ''->'' u"
      by (rule no_occurrence_before_brackets [OF assms(3), rotated 2]) simp_all
    then show "run (Lit ''->'') (u, g(1 \<mapsto> take (length ?s1 - length u) ?s1)) = []"
      by (rule run_Lit_Nil)
  qed
  then have a: "run A (?s1, g) = []"
    unfolding A_def run_Seq_Grp_Star by simp
  let ?F = "\<lambda>s'. run (Lit ''<-'') (s', g(2 \<mapsto> take (length ?s1 - length s') ?s1))"
  have "\<exists>tl. concat (map ?F (star_lazy (cls_ok (NotOf '']'')) (t @ (''<-'' @ d @ '']]''))))
          = ?F (''<-'' @ d @ '']]'') @ tl"
  proof (rule lazy_first_occurrence)
    show "list_all (cls_ok (NotOf '']'')) t" using assms(1) by (auto simp: list_all_iff)
    fix u assume u: "suffix u t" "u \<noteq> []"
    have "\<not> prefix ''<-'' (u @ ''<-'' @ d @ '']]'')"
    proof
      assume p: "prefix ''<-'' (u @ ''<-'' @ d @ '']]'')"
      from u(2) obtain x u' where x: "u = x # u'" by (cases u) auto
      show False
      proof (cases u')
        case Nil
        with p x show False by simp
      next
        case (Cons y u'')
        with p x have "prefix ''<-'' u" by simp
        from prefix_suffix_sublist [OF this u(1)] assms(4) show False by simp
      qed
    qed
    then show "?F (u @ ''<-'' @ d @ '']]'') = []" by (rule run_Lit_Nil)
  qed
  then obtain tlB where "run B (?s1, g) = (d @ '']]'', g(2 \<mapsto> t)) # tlB"
    unfolding B_def run_Seq_Grp_StarLazy by auto
  moreover obtain tlK where
    "run K (d @ '']]'', g(2 \<mapsto> t)) = ([], g(2 \<mapsto> t, 3 \<mapsto> d)) # tlK"
    unfolding K_def using arrow_tail_first [OF assms(2)] by blast
  moreover have "run arrow_re (''[['' @ ?s1, g) =
      concat (map (run K) (run A (?s1, g))) @ concat (map (run K) (run B (?s1, g)))"
    by (simp add: arrow_re_def A_def B_def K_def)
  ultimately show ?thesis using a by simp
qed

lemma needs_tiddly_re: "needs '']'' tiddly_re"
  by (simp add: tiddly_re_def sublist_Cons_right)

lemma tiddly_re_id: "CHR '']'' \<notin> set t \<Longrightarrow> replace_all tiddly_re f t = t"
  by (rule needs_replace_all [OF needs_tiddly_re]) (simp add: sublist_single)

lemma bracket_re_id:
  assumes "\<not> sublist ''[['' t" and "CHR '']'' \<notin> set t"
  shows "replace_all bracket_re f t = t"
proof (rule replace_all_no_match)
  fix u assume u: "suffix u t"
  have "\<not> prefix ''[['' u"
    using prefix_suffix_sublist [OF _ u] assms(1) by blast
  then have 1: "run (Lit ''[['') (u, Map.empty) = []" by (rule run_Lit_Nil)
  have "\<not> sublist '']'' u"
    using u assms(2) by (auto simp: sublist_single suffix_def)
  then have 2: "run (Seq (Opt (Seq (Lit '']['') (StarLazy Dot))) (Lit '']]'')) (u, Map.empty) = []"
    by (intro needs_no_match) (simp_all add: sublist_Cons_right)
  show "match_here bracket_re u = None"
    unfolding match_here_None bracket_re_def using 1 2 by simp
qed

lemma arrow_re_Nil: "match_here arrow_re [] = None"
  by (simp add: match_here_def arrow_re_def)

lemma link_re_Nil: "match_here link_re [] = None"
  by (simp add: match_here_def link_re_def)

lemma replace_all_whole:
  "match_here r m = Some ([], g) \<Longrightarrow> m \<noteq> [] \<Longrightarrow> match_here r [] = None \<Longrightarrow>
   replace_all r f m = f m g"
  using replace_all_match [of r m "[]" g f] replace_all_no_match [of "[]" r f] by simp

lemma match_all_whole:
  "match_here r m = Some ([], g) \<Longrightarrow> m \<noteq> [] \<Longrightarrow> match_here r [] = None \<Longrightarrow>
   match_all r m = [m]"
  using match_all_match [of r m "[]" g] match_all_no_match [of "[]" r] by simp

lemma link_of_arrow_right:
  assumes "CHR '']'' \<notin> set d" and "CHR '']'' \<notin> set t" and "\<not> sublist ''->'' t"
    and "\<not> sublist ''[['' t"
  shows "link_of (''[['' @ d @ ''->'' @ t @ '']]'') = t"
proof -
  from arrow_re_right [OF assms(1-3), of Map.empty]
  have "match_here arrow_re (''[['' @ d @ ''->'' @ t @ '']]'') = Some ([], [1 \<mapsto> d, 3 \<mapsto> t])"
    by (auto intro: match_here_first)
  then have "replace_all arrow_re arrowReplacer (''[['' @ d @ ''->'' @ t @ '']]'') =
      arrowReplacer (''[['' @ d @ ''->'' @ t @ '']]'') [1 \<mapsto> d, 3 \<mapsto> t]"
    by (rule replace_all_whole) (simp_all add: arrow_re_Nil)
  then have "replace_all arrow_re arrowReplacer (''[['' @ d @ ''->'' @ t @ '']]'') = t"
    by (simp add: arrowReplacer_def)
  then show ?thesis
    unfolding link_of_def by (simp only: tiddly_re_id [OF assms(2)] bracket_re_id [OF assms(4,2)])
qed

lemma link_of_arrow_left:
  assumes "CHR '']'' \<notin> set t" and "CHR '']'' \<notin> set d"
    and "\<not> sublist ''->'' (t @ ''<-'' @ d)" and "\<not> sublist ''<-'' t"
    and "\<not> sublist ''[['' t" and "t \<noteq> []"
  shows "link_of (''[['' @ t @ ''<-'' @ d @ '']]'') = t"
proof -
  from arrow_re_left [OF assms(1-4), of Map.empty]
  have "match_here arrow_re (''[['' @ t @ ''<-'' @ d @ '']]'') = Some ([], [2 \<mapsto> t, 3 \<mapsto> d])"
    by (auto intro: match_here_first)
  then have "replace_all arrow_re arrowReplacer (''[['' @ t @ ''<-'' @ d @ '']]'') =
      arrowReplacer (''[['' @ t @ ''<-'' @ d @ '']]'') [2 \<mapsto> t, 3 \<mapsto> d]"
    by (rule replace_all_whole) (simp_all add: arrow_re_Nil)
  then have "replace_all arrow_re arrowReplacer (''[['' @ t @ ''<-'' @ d @ '']]'') = t"
    using assms(6) by (simp add: arrowReplacer_def)
  then show ?thesis
    unfolding link_of_def by (simp only: tiddly_re_id [OF assms(1)] bracket_re_id [OF assms(5,1)])
qed

lemma links_single_token:
  assumes "list_all (cls_ok Dot) c" and "CHR '']'' \<notin> set c"
    and "link_of (''[['' @ c @ '']]'') \<noteq> []"
    and "link_of (''[['' @ c @ '']]'') \<notin> set Object_prototype"
  shows "links (p\<lparr>attr_text := ''[['' @ c @ '']]''\<rparr>) False = [link_of (''[['' @ c @ '']]'')]"
proof -
  from link_re_first [OF assms(1,2), of "[]" Map.empty]
  have "match_here link_re (''[['' @ c @ '']]'') = Some ([], Map.empty)"
    by (auto intro: match_here_first)
  then have "match_all link_re (''[['' @ c @ '']]'') = [''[['' @ c @ '']]'']"
    by (rule match_all_whole) (simp_all add: link_re_Nil)
  then show ?thesis
    using assms(3,4) by (simp add: links_def is_undefined_def Let_def)
qed

text \<open>
  C4: an arrow link gives the side that is not the displayed text: \<open>[[A->B]]\<close> and
  \<open>[[B<-A]]\<close> both give \<open>B\<close>. With several arrows the rightmost \<open>->\<close> divides:
  whatever the displayed text \<open>d\<close> holds (arrows too), \<open>[[d->t]]\<close> gives \<open>t\<close> when
  \<open>t\<close> holds no \<open>->\<close>. Without any \<open>->\<close> the leftmost \<open><-\<close> divides:
  \<open>[[t<-d]]\<close> gives \<open>t\<close> when \<open>t\<close> holds no \<open><-\<close>. (The texts hold no \<open>]\<close> and no
  line break, the target no \<open>[[\<close>; it is not empty and not the name of a property of
  \<open>Object.prototype\<close>.)
\<close>

theorem links_arrow_target:
  "links (defaults\<lparr>attr_text := ''[[A->B]]''\<rparr>) False = [''B''] \<and>
   links (defaults\<lparr>attr_text := ''[[B<-A]]''\<rparr>) False = [''B''] \<and>
   (list_all (cls_ok Dot) (d @ t) \<and> CHR '']'' \<notin> set (d @ t) \<and>
    \<not> sublist ''->'' t \<and> \<not> sublist ''[['' t \<and> t \<noteq> [] \<and> t \<notin> set Object_prototype \<longrightarrow>
      link_of (''[['' @ d @ ''->'' @ t @ '']]'') = t \<and>
      links (p\<lparr>attr_text := ''[['' @ d @ ''->'' @ t @ '']]''\<rparr>) False = [t]) \<and>
   (list_all (cls_ok Dot) (t @ d) \<and> CHR '']'' \<notin> set (t @ d) \<and>
    \<not> sublist ''<-'' t \<and> \<not> sublist ''->'' (t @ ''<-'' @ d) \<and>
    \<not> sublist ''[['' t \<and> t \<noteq> [] \<and> t \<notin> set Object_prototype \<longrightarrow>
      link_of (''[['' @ t @ ''<-'' @ d @ '']]'') = t \<and>
      links (p\<lparr>attr_text := ''[['' @ t @ ''<-'' @ d @ '']]''\<rparr>) False = [t])"
proof -
  have 1: "links (defaults\<lparr>attr_text := ''[[A->B]]''\<rparr>) False = [''B'']"
    by code_simp
  have 2: "links (defaults\<lparr>attr_text := ''[[B<-A]]''\<rparr>) False = [''B'']"
    by code_simp
  have 3: "link_of (''[['' @ d @ ''->'' @ t @ '']]'') = t \<and>
      links (p\<lparr>attr_text := ''[['' @ d @ ''->'' @ t @ '']]''\<rparr>) False = [t]"
    if h: "list_all (cls_ok Dot) (d @ t)" "CHR '']'' \<notin> set (d @ t)"
      "\<not> sublist ''->'' t" "\<not> sublist ''[['' t" "t \<noteq> []" "t \<notin> set Object_prototype"
  proof -
    have l: "link_of (''[['' @ d @ ''->'' @ t @ '']]'') = t"
      using h by (intro link_of_arrow_right) simp_all
    have "links (p\<lparr>attr_text := ''[['' @ (d @ ''->'' @ t) @ '']]''\<rparr>) False =
        [link_of (''[['' @ (d @ ''->'' @ t) @ '']]'')]"
      using h l by (intro links_single_token) simp_all
    with l show ?thesis by simp
  qed
  have 4: "link_of (''[['' @ t @ ''<-'' @ d @ '']]'') = t \<and>
      links (p\<lparr>attr_text := ''[['' @ t @ ''<-'' @ d @ '']]''\<rparr>) False = [t]"
    if h: "list_all (cls_ok Dot) (t @ d)" "CHR '']'' \<notin> set (t @ d)"
      "\<not> sublist ''<-'' t" "\<not> sublist ''->'' (t @ ''<-'' @ d)"
      "\<not> sublist ''[['' t" "t \<noteq> []" "t \<notin> set Object_prototype"
  proof -
    have l: "link_of (''[['' @ t @ ''<-'' @ d @ '']]'') = t"
      using h by (intro link_of_arrow_left) simp_all
    have "links (p\<lparr>attr_text := ''[['' @ (t @ ''<-'' @ d) @ '']]''\<rparr>) False =
        [link_of (''[['' @ (t @ ''<-'' @ d) @ '']]'')]"
      using h l by (intro links_single_token) simp_all
    with l show ?thesis by simp
  qed
  show ?thesis using 1 2 3 4 by blast
qed

theorem links_arrow_target_witness:
  "links (defaults\<lparr>attr_text := ''[[a->b->c]]''\<rparr>) False = [''c''] \<and>
   links (defaults\<lparr>attr_text := ''[[a<-b<-c]]''\<rparr>) False = [''a'']"
proof -
  have 1: "links (defaults\<lparr>attr_text := ''[[a->b->c]]''\<rparr>) False = [''c'']"
    using links_arrow_target [where d = "''a->b''" and t = "''c''" and p = defaults]
    by (simp add: sublist_Cons_right Object_prototype_def)
  have 2: "links (defaults\<lparr>attr_text := ''[[a<-b<-c]]''\<rparr>) False = [''a'']"
    using links_arrow_target [where d = "''b<-c''" and t = "''a''" and p = defaults]
    by (simp add: sublist_Cons_right Object_prototype_def)
  show ?thesis using 1 2 by simp
qed

section \<open>Properties of replaceLink\<close>

lemma needs_simpleLinkRegexp: "needs old (simpleLinkRegexp old)"
  by (simp add: simpleLinkRegexp_def)

lemma needs_compoundLinkRegexp: "needs old (compoundLinkRegexp old)"
  by (simp add: compoundLinkRegexp_def)

lemma needs_reverseLinkRegexp: "needs old (reverseLinkRegexp old)"
  by (simp add: reverseLinkRegexp_def)

lemma replaceLink_text_unchanged:
  "\<not> sublist old text \<Longrightarrow> replaceLink_text old new text = text"
  unfolding replaceLink_text_def
  by (simp only: needs_replace_all [OF needs_simpleLinkRegexp]
      needs_replace_all [OF needs_compoundLinkRegexp]
      needs_replace_all [OF needs_reverseLinkRegexp] not_False_eq_True)

lemma sublist_split:
  assumes "sublist w (a @ c # b)" and "c \<notin> set w"
  shows "sublist w a \<or> sublist w b"
proof -
  from assms(1) consider "sublist w a" | "sublist w (c # b)"
    | w1 w2 where "w = w1 @ w2" "suffix w1 a" "prefix w2 (c # b)"
    by (auto simp: sublist_append)
  then show ?thesis
  proof cases
    case 1
    then show ?thesis by simp
  next
    case 2
    then show ?thesis using assms(2) by (auto simp: sublist_Cons_right prefix_Cons)
  next
    case 3
    then show ?thesis using assms(2) by (cases w2) (auto simp: prefix_Cons)
  qed
qed

lemma pattern_literal_brackets:
  "pattern_literal old \<Longrightarrow> CHR ''['' \<notin> set old \<and> CHR '']'' \<notin> set old"
  by (auto simp: pattern_literal_def list_all_iff)

lemma run_Seq_Lit:
  "run (Seq (Lit w) k) (s, g) = (if prefix w s then run k (drop (length w) s, g) else [])"
proof (cases "prefix w s")
  case True
  then have "take (length w) s = w" by (auto simp: prefix_def)
  with True show ?thesis by simp
next
  case False
  then show ?thesis by (simp add: run_Lit_Nil del: run.simps(1))
qed

lemma simpleLinkRegexp_match:
  "match_here (simpleLinkRegexp old) (''[['' @ old @ '']]'' @ post) = Some (post, Map.empty)"
  by (simp add: match_here_def simpleLinkRegexp_def)

lemma simpleLinkRegexp_before:
  assumes "CHR ''['' \<notin> set old" and "\<not> sublist old pre" and "suffix u pre" and "u \<noteq> []"
  shows "match_here (simpleLinkRegexp old) (u @ ''[['' @ old @ rest) = None"
proof -
  from assms(2) have ne: "old \<noteq> []" by auto
  from assms(4) obtain x u' where x: "u = x # u'" by (cases u) auto
  have "\<not> prefix old (drop (length ''[['') (u @ ''[['' @ old @ rest))"
  proof
    assume p: "prefix old (drop (length ''[['') (u @ ''[['' @ old @ rest))"
    show False
    proof (cases u')
      case Nil
      with p x have "prefix old (CHR ''['' # old @ rest)" by simp
      with ne assms(1) show False by (cases old) auto
    next
      case (Cons y u'')
      with p x have "prefix old (u'' @ CHR ''['' # CHR ''['' # old @ rest)" by simp
      from prefix_stop [OF this assms(1)] have "prefix old u''" .
      moreover have "suffix u'' pre"
        using assms(3) x Cons by (auto simp: suffix_def)
      ultimately show False using assms(2) prefix_suffix_sublist by blast
    qed
  qed
  then have "run (simpleLinkRegexp old) (u @ ''[['' @ old @ rest, Map.empty) = []"
    unfolding simpleLinkRegexp_def by (simp only: run_Seq_Lit if_False if_cancel)
  then show ?thesis
    by (simp only: match_here_None)
qed

lemma replaceLink_text_bare:
  assumes "pattern_literal old" and "\<not> sublist old pre" and "\<not> sublist old post"
    and "\<not> sublist old new"
  shows "replaceLink_text old new (pre @ ''[['' @ old @ '']]'' @ post) =
         pre @ ''[['' @ new @ '']]'' @ post"
proof -
  from pattern_literal_brackets [OF assms(1)]
  have b: "CHR ''['' \<notin> set old" "CHR '']'' \<notin> set old" by simp_all
  let ?f = "expand [Txt ''[['', Txt new, Ref 1, Txt '']]'']"
  have 1: "replace_all (simpleLinkRegexp old) ?f (pre @ (''[['' @ old @ '']]'') @ post) =
        pre @ replace_all (simpleLinkRegexp old) ?f ((''[['' @ old @ '']]'') @ post)"
    by (rule replace_all_skip) (use simpleLinkRegexp_before [OF b(1) assms(2)] in simp)
  have 2: "replace_all (simpleLinkRegexp old) ?f ((''[['' @ old @ '']]'') @ post) =
        ?f (''[['' @ old @ '']]'') Map.empty @ replace_all (simpleLinkRegexp old) ?f post"
    by (rule replace_all_match) (use simpleLinkRegexp_match [of old post] in simp_all)
  have 3: "replace_all (simpleLinkRegexp old) ?f post = post"
    by (rule needs_replace_all [OF needs_simpleLinkRegexp assms(3)])
  have s: "replace_all (simpleLinkRegexp old) ?f (pre @ ''[['' @ old @ '']]'' @ post) =
        pre @ ''[['' @ new @ '']]'' @ post"
    using 1 2 3 by simp
  have n: "\<not> sublist old (pre @ ''[['' @ new @ '']]'' @ post)"
  proof
    assume "sublist old (pre @ ''[['' @ new @ '']]'' @ post)"
    then have "sublist old (pre @ CHR ''['' # (CHR ''['' # new @ '']]'' @ post))" by simp
    from sublist_split [OF this b(1)] assms(2)
    have "sublist old ([] @ CHR ''['' # (new @ '']]'' @ post))" by simp
    from sublist_split [OF this b(1)] assms(2)
    have "sublist old (new @ CHR '']'' # (CHR '']'' # post))" by auto
    from sublist_split [OF this b(2)] assms(4)
    have "sublist old ([] @ CHR '']'' # post)" by simp
    from sublist_split [OF this b(2)] assms(2,3) show False by auto
  qed
  show ?thesis
    unfolding replaceLink_text_def s
    by (simp only: needs_replace_all [OF needs_compoundLinkRegexp n]
        needs_replace_all [OF needs_reverseLinkRegexp n])
qed


text \<open>
  Where replaceLink does what is documented (for an \<open>oldLink\<close> without characters of
  the pattern syntax and a \<open>newLink\<close> without \<open>$\<close>, as the specification requires
  of the caller): the example of the specification; a text in which \<open>oldLink\<close> does not
  occur stays as it is and is not saved; a bare link between texts that hold neither
  \<open>oldLink\<close> is rewritten in place when \<open>newLink\<close> does not hold \<open>oldLink\<close>; and a
  text with the four forms of a link, all rewritten.
\<close>

lemma replaceLink_example:
  "replaceLink (defaults\<lparr>attr_text := ''go to [[Old]]''\<rparr>) ''Old'' ''New'' =
     Some (Save_text ''go to [[New]]'')"
  by code_simp

lemma replaceLink_no_occurrence:
  assumes "pattern_literal old" and "replacement_literal new"
    and "\<not> sublist old (attr_text p)"
  shows "replaceLink p old new = Some No_save"
  using assms replaceLink_text_unchanged [OF assms(3)] by (simp add: replaceLink_def Let_def)

lemma replaceLink_bare:
  assumes "pattern_literal old" and "replacement_literal new"
    and "\<not> sublist old pre" and "\<not> sublist old post" and "\<not> sublist old new"
  shows "replaceLink (p\<lparr>attr_text := pre @ ''[['' @ old @ '']]'' @ post\<rparr>) old new =
        Some (Save_text (pre @ ''[['' @ new @ '']]'' @ post))"
proof -
  from assms(5) have "new \<noteq> old" by auto
  then have "pre @ ''[['' @ new @ '']]'' @ post \<noteq> pre @ ''[['' @ old @ '']]'' @ post"
    by simp
  then show ?thesis
    using assms(1,2) replaceLink_text_bare [OF assms(1,3,4,5)]
    by (simp add: replaceLink_def Let_def del: append.simps)
qed

lemma replaceLink_all_forms:
  "replaceLink
     (defaults\<lparr>attr_text := ''[[Old]], [[Old][$x = 1]], [[a->Old]], [[a|Old]], [[Old<-a]], [[Older]]''\<rparr>)
     ''Old'' ''New'' =
   Some (Save_text ''[[New]], [[New][$x = 1]], [[a->New]], [[a|New]], [[New<-a]], [[Older]]'')"
  by code_simp

subsection \<open>C6: the second replacement matches the result of the first\<close>

text \<open>
  C6 fails where \<open>newLink\<close> ends with an arrow and \<open>oldLink\<close>: renaming \<open>Old\<close> to
  \<open>x->Old\<close> in the text \<open>[[Old]]\<close>, the first replacement rewrites the bare link to
  \<open>[[x->Old]]\<close>; this is an arrow link to \<open>Old\<close> for the second replacement, which
  rewrites it again. The text that is saved is \<open>[[x->x->Old]]\<close>; the bare link
  rewritten is \<open>[[x->Old]]\<close>.
\<close>

theorem replaceLink_rewrites_its_result:
  "pattern_literal ''Old'' \<and> replacement_literal ''x->Old'' \<and>
   replace_all (simpleLinkRegexp ''Old'') (expand [Txt ''[['', Txt ''x->Old'', Ref 1, Txt '']]''])
     ''[[Old]]'' = ''[[x->Old]]'' \<and>
   replaceLink (defaults\<lparr>attr_text := ''[[Old]]''\<rparr>) ''Old'' ''x->Old'' =
     Some (Save_text ''[[x->x->Old]]'')"
  by code_simp

end
